theory Spec2Isabelle
  imports Main
begin

section \<open>JavaScript strings\<close>

text \<open>
  The rule authoring form of \<^verbatim>\<open>SystemConfigPage.tsx\<close> works on JavaScript strings.
  A string is modelled as a list of code units; the model covers the code units
  \<open>0..255\<close>, which is what a \<^typ>\<open>char\<close> holds.
\<close>

definition is_ws :: "char \<Rightarrow> bool" where
  \<comment> \<open>WhiteSpace and LineTerminator of ECMAScript in the range \<open>0..255\<close>:
      TAB, LF, VT, FF, CR, SP and NBSP.\<close>
  "is_ws c = (c \<in> set [CHR 0x09, CHR 0x0A, CHR 0x0B, CHR 0x0C, CHR 0x0D, CHR 0x20, CHR 0xA0])"

definition trim :: "string \<Rightarrow> string" where
  \<comment> \<open>\<^verbatim>\<open>String.prototype.trim\<close>\<close>
  "trim s = rev (dropWhile is_ws (rev (dropWhile is_ws s)))"

fun split_on :: "char \<Rightarrow> string \<Rightarrow> string list" where
  \<comment> \<open>\<^verbatim>\<open>s.split(c)\<close> for a separator of one character; the result is never empty.\<close>
  "split_on c [] = [[]]"
| "split_on c (x # xs) =
     (if x = c then [] # split_on c xs
      else (case split_on c xs of
              [] \<Rightarrow> [[x]]
            | y # ys \<Rightarrow> (x # y) # ys))"

fun join_with :: "string \<Rightarrow> string list \<Rightarrow> string" where
  \<comment> \<open>the pieces with the separator between two neighbours\<close>
  "join_with sep [] = []"
| "join_with sep [x] = x"
| "join_with sep (x # y # ys) = x @ sep @ join_with sep (y # ys)"

section \<open>JavaScript numbers\<close>

text \<open>
  A finite number is kept as an exact decimal \<open>m * 10 ^ e\<close> in lowest terms (the mantissa
  \<open>m\<close> is not a multiple of ten, and zero is \<open>Fin 0 0\<close>). The rounding of 64-bit binary
  floating point and the sign of zero are not modelled.
\<close>

datatype jsnum = NaN | PosInfinity | NegInfinity | Fin int int

function strip10 :: "nat \<Rightarrow> int \<Rightarrow> nat \<times> int" where
  "strip10 m e = (if m = 0 then (0, 0)
                  else if m mod 10 = 0 then strip10 (m div 10) (e + 1)
                  else (m, e))"
  by pat_completeness auto
termination
  by (relation "measure (\<lambda>(m, e). m)") auto

declare strip10.simps [simp del]

definition mk_fin :: "bool \<Rightarrow> nat \<Rightarrow> int \<Rightarrow> jsnum" where
  \<comment> \<open>the number \<open>\<plusminus> m * 10 ^ e\<close> in lowest terms\<close>
  "mk_fin neg m e =
     (case strip10 m e of (m', e') \<Rightarrow> Fin (if neg then - int m' else int m') e')"

definition js_nat :: "nat \<Rightarrow> jsnum" where
  \<comment> \<open>the natural number \<open>n\<close> as a JavaScript number\<close>
  "js_nat n = mk_fin False n 0"

definition is_digit :: "char \<Rightarrow> bool" where
  "is_digit c = (c \<in> set ''0123456789'')"

definition digit_val :: "char \<Rightarrow> nat" where
  "digit_val c = of_char c - 48"

definition digit_char :: "nat \<Rightarrow> char" where
  "digit_char d = ''0123456789'' ! (d mod 10)"

definition nat_of_digits :: "string \<Rightarrow> nat" where
  "nat_of_digits ds = foldl (\<lambda>n c. 10 * n + digit_val c) 0 ds"

function digits_of_nat :: "nat \<Rightarrow> string" where
  "digits_of_nat n = (if n < 10 then [digit_char n]
                      else digits_of_nat (n div 10) @ [digit_char (n mod 10)])"
  by pat_completeness auto
termination
  by (relation "measure (\<lambda>n. n)") auto

declare digits_of_nat.simps [simp del]

definition strip_sign :: "string \<Rightarrow> bool \<times> string" where
  \<comment> \<open>an optional \<open>+\<close> or \<open>-\<close>; the flag says the sign was \<open>-\<close>\<close>
  "strip_sign s = (case s of
       [] \<Rightarrow> (False, [])
     | c # t \<Rightarrow> if c = CHR ''-'' then (True, t)
                else if c = CHR ''+'' then (False, t)
                else (False, s))"

definition exponent_part :: "string \<Rightarrow> int" where
  \<comment> \<open>the value of an ExponentPart at the head of the text, 0 when there is none\<close>
  "exponent_part s = (case s of
       [] \<Rightarrow> 0
     | c # t \<Rightarrow>
         if c = CHR ''e'' \<or> c = CHR ''E'' then
           (case strip_sign t of (neg, t') \<Rightarrow>
              let ds = takeWhile is_digit t' in
              if ds = [] then 0
              else if neg then - int (nat_of_digits ds) else int (nat_of_digits ds))
         else 0)"

definition parseFloat :: "string \<Rightarrow> jsnum" where
  \<comment> \<open>the longest prefix of the text, after leading white space, that is a
      StrDecimalLiteral; \<open>NaN\<close> when there is none\<close>
  "parseFloat s =
     (case strip_sign (dropWhile is_ws s) of (neg, s2) \<Rightarrow>
        if take 8 s2 = ''Infinity'' then (if neg then NegInfinity else PosInfinity)
        else
          let ip = takeWhile is_digit s2;
              r1 = dropWhile is_digit s2;
              fp = (case r1 of [] \<Rightarrow> [] | c # t \<Rightarrow>
                      if c = CHR ''.'' then takeWhile is_digit t else []);
              r2 = (case r1 of [] \<Rightarrow> [] | c # t \<Rightarrow>
                      if c = CHR ''.'' then dropWhile is_digit t else r1)
          in if ip = [] \<and> fp = [] then NaN
             else mk_fin neg (nat_of_digits (ip @ fp)) (exponent_part r2 - int (length fp)))"

definition number_to_string :: "jsnum \<Rightarrow> string" where
  \<comment> \<open>\<^verbatim>\<open>Number::toString\<close> in radix 10: \<open>k\<close> significant digits, decimal point after
      the \<open>n\<close>-th\<close>
  "number_to_string x = (case x of
       NaN \<Rightarrow> ''NaN''
     | PosInfinity \<Rightarrow> ''Infinity''
     | NegInfinity \<Rightarrow> ''-Infinity''
     | Fin m e \<Rightarrow>
         if m = 0 then ''0''
         else
           let ds = digits_of_nat (nat \<bar>m\<bar>);
               k = int (length ds);
               n = k + e;
               body =
                 (if k \<le> n \<and> n \<le> 21 then ds @ replicate (nat (n - k)) CHR ''0''
                  else if 0 < n \<and> n \<le> 21 then take (nat n) ds @ ''.'' @ drop (nat n) ds
                  else if - 6 < n \<and> n \<le> 0 then ''0.'' @ replicate (nat (- n)) CHR ''0'' @ ds
                  else
                    (if k = 1 then ds else take 1 ds @ ''.'' @ drop 1 ds)
                    @ ''e'' @ (if 0 \<le> n - 1 then ''+'' else ''-'')
                    @ digits_of_nat (nat \<bar>n - 1\<bar>))
           in (if m < 0 then ''-'' else []) @ body)"


section \<open>JavaScript values\<close>

text \<open>
  The values a rule can carry: what \<^verbatim>\<open>JSON.parse\<close> delivers from the
  \<^verbatim>\<open>rule_value jsonb\<close> column, and what the form handler builds (which may hold
  \<open>NaN\<close> and \<open>undefined\<close>). The properties of an object are listed in the order
  JavaScript enumerates them.
\<close>

datatype jsval =
    Undefined
  | Null
  | Bool bool
  | Num jsnum
  | Str string
  | Arr "jsval list"
  | Obj "(string \<times> jsval) list"

definition isArray :: "jsval \<Rightarrow> bool" where
  "isArray v = (case v of Arr _ \<Rightarrow> True | _ \<Rightarrow> False)"

definition typeof :: "jsval \<Rightarrow> string" where
  "typeof v = (case v of
       Undefined \<Rightarrow> ''undefined''
     | Null \<Rightarrow> ''object''
     | Bool _ \<Rightarrow> ''boolean''
     | Num _ \<Rightarrow> ''number''
     | Str _ \<Rightarrow> ''string''
     | Arr _ \<Rightarrow> ''object''
     | Obj _ \<Rightarrow> ''object'')"

definition get_prop :: "(string \<times> jsval) list \<Rightarrow> string \<Rightarrow> jsval" where
  \<comment> \<open>reading a property of an object: \<open>undefined\<close> when it is absent\<close>
  "get_prop kvs k = (case map_of kvs k of None \<Rightarrow> Undefined | Some v \<Rightarrow> v)"

fun to_string :: "jsval \<Rightarrow> string" where
  \<comment> \<open>the abstract operation ToString; an array is its elements joined with a comma,
      \<open>null\<close> and \<open>undefined\<close> elements as the empty string\<close>
  "to_string Undefined = ''undefined''"
| "to_string Null = ''null''"
| "to_string (Bool b) = (if b then ''true'' else ''false'')"
| "to_string (Num x) = number_to_string x"
| "to_string (Str s) = s"
| "to_string (Arr xs) =
     join_with '','' (map (\<lambda>v. if v = Undefined \<or> v = Null then [] else to_string v) xs)"
| "to_string (Obj kvs) = ''[object Object]''"

definition array_join :: "string \<Rightarrow> jsval list \<Rightarrow> string" where
  \<comment> \<open>\<^verbatim>\<open>Array.prototype.join\<close>\<close>
  "array_join sep xs =
     join_with sep (map (\<lambda>v. if v = Undefined \<or> v = Null then [] else to_string v) xs)"

definition hex_char :: "nat \<Rightarrow> char" where
  "hex_char d = ''0123456789abcdef'' ! (d mod 16)"

definition json_escape :: "char \<Rightarrow> string" where
  \<comment> \<open>one code unit inside a JSON string literal (\<^verbatim>\<open>QuoteJSONString\<close>)\<close>
  "json_escape c =
     (if c = CHR 0x22 then [CHR 0x5C, CHR 0x22]
      else if c = CHR 0x5C then [CHR 0x5C, CHR 0x5C]
      else if c = CHR 0x08 then [CHR 0x5C, CHR ''b'']
      else if c = CHR 0x0C then [CHR 0x5C, CHR ''f'']
      else if c = CHR 0x0A then [CHR 0x5C, CHR ''n'']
      else if c = CHR 0x0D then [CHR 0x5C, CHR ''r'']
      else if c = CHR 0x09 then [CHR 0x5C, CHR ''t'']
      else if (of_char c :: nat) < 32 then
        [CHR 0x5C, CHR ''u'', CHR ''0'', CHR ''0'',
         hex_char (of_char c div 16), hex_char (of_char c mod 16)]
      else [c])"

definition json_quote :: "string \<Rightarrow> string" where
  "json_quote s = [CHR 0x22] @ concat (map json_escape s) @ [CHR 0x22]"

fun json_stringify :: "jsval \<Rightarrow> string option" where
  \<comment> \<open>\<^verbatim>\<open>JSON.stringify\<close> with one argument; \<open>None\<close> is the result \<open>undefined\<close>\<close>
  "json_stringify Undefined = None"
| "json_stringify Null = Some ''null''"
| "json_stringify (Bool b) = Some (if b then ''true'' else ''false'')"
| "json_stringify (Num x) =
     Some (case x of Fin m e \<Rightarrow> number_to_string x | _ \<Rightarrow> ''null'')"
| "json_stringify (Str s) = Some (json_quote s)"
| "json_stringify (Arr xs) =
     Some (''['' @ join_with '',''
             (map (\<lambda>v. case json_stringify v of None \<Rightarrow> ''null'' | Some t \<Rightarrow> t) xs)
           @ '']'')"
| "json_stringify (Obj kvs) =
     Some (''{'' @ join_with '',''
             (concat (map (\<lambda>(k, v). case json_stringify v of
                                      None \<Rightarrow> []
                                    | Some t \<Rightarrow> [json_quote k @ '':'' @ t]) kvs))
           @ ''}'')"

section \<open>The rule value codec of the authoring form\<close>

datatype rule_type = RPresence | RRegex | RList | RRange | RCustom

definition rule_type_name :: "rule_type \<Rightarrow> string" where
  \<comment> \<open>the members of the union type of \<^verbatim>\<open>Rule.rule_type\<close>\<close>
  "rule_type_name t = (case t of
       RPresence \<Rightarrow> ''presence''
     | RRegex \<Rightarrow> ''regex''
     | RList \<Rightarrow> ''list''
     | RRange \<Rightarrow> ''range''
     | RCustom \<Rightarrow> ''custom'')"

definition nth_or_undefined :: "jsval list \<Rightarrow> nat \<Rightarrow> jsval" where
  \<comment> \<open>an element of an array, as destructuring reads it\<close>
  "nth_or_undefined xs i = (if i < length xs then xs ! i else Undefined)"

definition decodeRuleValue :: "rule_type \<Rightarrow> string \<Rightarrow> jsval" where
  \<comment> \<open>\<^verbatim>\<open>handleSubmit\<close>, "Parse rule value based on type": the value the handler stores
      for the text of the form\<close>
  "decodeRuleValue t text =
     (if t = RList then Arr (map (\<lambda>v. Str (trim v)) (split_on CHR '','' text))
      else if t = RRange then
        (let parts = map (\<lambda>v. Num (parseFloat (trim v))) (split_on CHR ''-'' text)
         in Obj [(''min'', nth_or_undefined parts 0), (''max'', nth_or_undefined parts 1)])
      else if t = RPresence then Obj [(''required'', Bool True)]
      else Str text)"

datatype format_failure =
    TypeError    \<comment> \<open>reading \<^verbatim>\<open>.min\<close> of \<open>null\<close> throws\<close>
  | NotAString   \<comment> \<open>\<^verbatim>\<open>JSON.stringify(undefined)\<close> is \<open>undefined\<close>, not a string\<close>

definition formatRuleValue :: "jsval \<Rightarrow> string \<Rightarrow> format_failure + string" where
  \<comment> \<open>\<^verbatim>\<open>formatRuleValue(value, type)\<close>: the text \<^verbatim>\<open>handleEdit\<close> puts into the form and
      the list shows\<close>
  "formatRuleValue v t =
     (if t = ''list'' \<and> isArray v then
        (case v of Arr xs \<Rightarrow> Inr (array_join '', '' xs) | _ \<Rightarrow> Inl TypeError)
      else if t = ''range'' \<and> typeof v = ''object'' then
        (case v of
           Obj kvs \<Rightarrow>
             Inr (to_string (get_prop kvs ''min'') @ ''-'' @ to_string (get_prop kvs ''max''))
         | Arr xs \<Rightarrow> Inr (''undefined'' @ ''-'' @ ''undefined'')
         | _ \<Rightarrow> Inl TypeError)
      else (case v of
              Str s \<Rightarrow> Inr s
            | _ \<Rightarrow> (case json_stringify v of None \<Rightarrow> Inl NotAString | Some s \<Rightarrow> Inr s)))"


definition trimmed :: "string \<Rightarrow> bool" where
  \<comment> \<open>no white space at either end\<close>
  "trimmed s = (s = [] \<or> (\<not> is_ws (hd s) \<and> \<not> is_ws (last s)))"

definition plain_number :: "jsnum \<Rightarrow> bool" where
  \<comment> \<open>a number in lowest terms that is zero or at least \<open>10 ^ - 6\<close>: it prints
      without a minus sign\<close>
  "plain_number x = (case x of
       Fin m e \<Rightarrow> (m = 0 \<and> e = 0) \<or> (0 < m \<and> m mod 10 \<noteq> 0 \<and> 10 ^ nat (- e) \<le> m * 10 ^ 6)
     | _ \<Rightarrow> False)"

definition codec_value :: "rule_type \<Rightarrow> jsval \<Rightarrow> bool" where
  \<comment> \<open>the values the text form can carry: \<open>{ required: true }\<close>, a string for
      \<open>regex\<close> and \<open>custom\<close>, a non-empty array of trimmed strings without commas,
      and \<open>{ min, max }\<close> of plain numbers\<close>
  "codec_value k v = (case k of
       RPresence \<Rightarrow> v = Obj [(''required'', Bool True)]
     | RRegex \<Rightarrow> (case v of Str _ \<Rightarrow> True | _ \<Rightarrow> False)
     | RCustom \<Rightarrow> (case v of Str _ \<Rightarrow> True | _ \<Rightarrow> False)
     | RList \<Rightarrow>
         (case v of
            Arr xs \<Rightarrow> xs \<noteq> [] \<and>
              list_all (\<lambda>x. case x of Str s \<Rightarrow> trimmed s \<and> CHR '','' \<notin> set s | _ \<Rightarrow> False) xs
          | _ \<Rightarrow> False)
     | RRange \<Rightarrow>
         (case v of
            Obj kvs \<Rightarrow>
              (case (get_prop kvs ''min'', get_prop kvs ''max'') of
                 (Num a, Num b) \<Rightarrow>
                   kvs = [(''min'', Num a), (''max'', Num b)] \<and> plain_number a \<and> plain_number b
               | _ \<Rightarrow> False)
          | _ \<Rightarrow> False))"

section \<open>The data store\<close>

text \<open>
  The tables of the migration \<^verbatim>\<open>20250918140342_lively_temple.sql\<close> with their
  constraints and row-level policies. The client acts as the signed-in user, so
  \<^verbatim>\<open>auth.uid()\<close> is the id of \<^verbatim>\<open>useAuth().user\<close>, or \<open>None\<close> when nobody is signed in.
  The values \<^verbatim>\<open>gen_random_uuid()\<close> and \<^verbatim>\<open>now()\<close> produce are arguments of the
  operations. Failures of the transport are not modelled: an operation fails only where a
  constraint or a policy of the migration refuses it. (A string that holds the code unit
  0, which \<^verbatim>\<open>jsonb\<close> refuses, is outside the model.)
\<close>

datatype compliance_status = Compliant | NonCompliant | Pending

datatype severity = Low | Medium | High

datatype report_status = Open | InProgress | Resolved | Closed

record product =
  product_id :: string
  product_name :: string
  manufacturer :: "string option"
  product_description :: "string option"
  image_url :: "string option"
  mrp :: "jsnum option"
  net_quantity :: "string option"
  country_of_origin :: "string option"
  date_of_manufacture :: "string option"
  consumer_care_details :: "string option"
  platform :: "string option"
  platform_product_id :: "string option"
  compliance_status :: compliance_status
  product_created_at :: nat
  product_updated_at :: nat

record report =
  report_id :: string
  report_product_id :: string
  reporter_id :: string
  license_number :: "string option"
  violation_details :: string
  violation_type :: "string option"
  severity :: severity
  status :: report_status
  report_created_at :: nat
  report_updated_at :: nat

text \<open>
  \<open>rule_data\<close> is the object \<^verbatim>\<open>ruleData\<close> that \<^verbatim>\<open>handleSubmit\<close> sends; a row of the
  table \<^verbatim>\<open>rules\<close> has these columns and the three the database fills in.
\<close>

record rule_data =
  rule_name :: string
  field_to_validate :: string
  rule_type :: rule_type
  rule_value :: jsval
  description :: "string option"
  is_active :: bool
  created_by :: "string option"

record rule = rule_data +
  rule_id :: string
  created_at :: nat
  updated_at :: nat

record store =
  rules_table :: "rule list"
  products_table :: "product list"
  reports_table :: "report list"

datatype storage_error =
    NotNullViolation | UniqueViolation | ForeignKeyViolation | PolicyViolation

fun wire :: "jsval \<Rightarrow> jsval" where
  \<comment> \<open>a value as it arrives in a \<^verbatim>\<open>jsonb\<close> column, sent as JSON: \<open>NaN\<close> and the
      infinities become \<open>null\<close>, \<open>undefined\<close> becomes \<open>null\<close> in an array and is left out
      of an object. A value that is \<open>undefined\<close> itself is not sent at all. (The order
      in which \<^verbatim>\<open>jsonb\<close> keeps the properties of an object is not modelled.)\<close>
  "wire Undefined = Undefined"
| "wire Null = Null"
| "wire (Bool b) = Bool b"
| "wire (Num x) = (case x of Fin m e \<Rightarrow> Num x | _ \<Rightarrow> Null)"
| "wire (Str s) = Str s"
| "wire (Arr xs) = Arr (map (\<lambda>v. if v = Undefined then Null else wire v) xs)"
| "wire (Obj kvs) =
     Obj (concat (map (\<lambda>(k, v). if v = Undefined then [] else [(k, wire v)]) kvs))"

definition may_write_rule :: "string option \<Rightarrow> rule \<Rightarrow> bool" where
  \<comment> \<open>the policies "Users can update rules they created" and "Users can delete rules
      they created": \<^verbatim>\<open>USING (auth.uid() = created_by)\<close>\<close>
  "may_write_rule uid r = (uid \<noteq> None \<and> created_by r = uid)"

definition select_rules :: "string option \<Rightarrow> store \<Rightarrow> rule list" where
  \<comment> \<open>\<^verbatim>\<open>from('rules').select('*').order('created_at', { ascending: false })\<close>; every
      signed-in user may read every rule\<close>
  "select_rules uid s =
     (if uid = None then [] else rev (sort_key created_at (rules_table s)))"

definition insert_rule ::
  "string option \<Rightarrow> string \<Rightarrow> nat \<Rightarrow> rule_data \<Rightarrow> store \<Rightarrow> storage_error + store" where
  \<comment> \<open>\<^verbatim>\<open>from('rules').insert(ruleData)\<close>: \<^verbatim>\<open>rule_value jsonb NOT NULL\<close>, the policy
      "Users can create rules" and the primary key\<close>
  "insert_rule uid new_id now d s =
     (if wire (rule_value d) = Undefined then Inl NotNullViolation
      else if uid = None \<or> created_by d \<noteq> uid then Inl PolicyViolation
      else if new_id \<in> set (map rule_id (rules_table s)) then Inl UniqueViolation
      else Inr (s\<lparr>rules_table := rules_table s @
             [\<lparr>rule_name = rule_name d, field_to_validate = field_to_validate d,
               rule_type = rule_type d, rule_value = wire (rule_value d),
               description = description d, is_active = is_active d,
               created_by = created_by d,
               rule_id = new_id, created_at = now, updated_at = now\<rparr>]\<rparr>))"

definition update_rule ::
  "string option \<Rightarrow> string \<Rightarrow> rule_data \<Rightarrow> store \<Rightarrow> storage_error + store" where
  \<comment> \<open>\<^verbatim>\<open>from('rules').update(ruleData).eq('id', rid)\<close>: the rows the policy lets the user
      see are rewritten, and the new row must satisfy the policy too; a row of somebody
      else is left as it is, without an error\<close>
  "update_rule uid rid d s =
     (if (\<exists>r \<in> set (rules_table s). rule_id r = rid \<and> may_write_rule uid r)
         \<and> created_by d \<noteq> uid
      then Inl PolicyViolation
      else Inr (s\<lparr>rules_table :=
             map (\<lambda>r. if rule_id r = rid \<and> may_write_rule uid r
                      then r\<lparr>rule_name := rule_name d,
                             field_to_validate := field_to_validate d,
                             rule_type := rule_type d,
                             rule_value := (if wire (rule_value d) = Undefined then rule_value r
                                            else wire (rule_value d)),
                             description := description d,
                             is_active := is_active d,
                             created_by := created_by d\<rparr>
                      else r)
                 (rules_table s)\<rparr>))"

definition update_rule_is_active ::
  "string option \<Rightarrow> string \<Rightarrow> bool \<Rightarrow> store \<Rightarrow> storage_error + store" where
  \<comment> \<open>\<^verbatim>\<open>from('rules').update({ is_active: b }).eq('id', rid)\<close>\<close>
  "update_rule_is_active uid rid b s =
     Inr (s\<lparr>rules_table :=
            map (\<lambda>r. if rule_id r = rid \<and> may_write_rule uid r then r\<lparr>is_active := b\<rparr> else r)
                (rules_table s)\<rparr>)"

definition delete_rule :: "string option \<Rightarrow> string \<Rightarrow> store \<Rightarrow> storage_error + store" where
  \<comment> \<open>\<^verbatim>\<open>from('rules').delete().eq('id', rid)\<close>\<close>
  "delete_rule uid rid s =
     Inr (s\<lparr>rules_table :=
            filter (\<lambda>r. \<not> (rule_id r = rid \<and> may_write_rule uid r)) (rules_table s)\<rparr>)"

definition insert_report ::
  "string option \<Rightarrow> string \<Rightarrow> nat \<Rightarrow> string \<Rightarrow> string \<Rightarrow> string \<Rightarrow> string \<Rightarrow> string
     \<Rightarrow> severity \<Rightarrow> store \<Rightarrow> storage_error + store" where
  \<comment> \<open>\<^verbatim>\<open>from('reports').insert({...})\<close>: the policy "Users can create reports"
      (\<^verbatim>\<open>auth.uid() = reporter_id\<close>), the foreign key to \<^verbatim>\<open>products\<close> and the primary
      key; \<^verbatim>\<open>status\<close> takes its default \<open>open\<close>\<close>
  "insert_report uid new_id now pid reporter lic details vtype sev s =
     (if uid \<noteq> Some reporter then Inl PolicyViolation
      else if pid \<notin> set (map product_id (products_table s)) then Inl ForeignKeyViolation
      else if new_id \<in> set (map report_id (reports_table s)) then Inl UniqueViolation
      else Inr (s\<lparr>reports_table := reports_table s @
             [\<lparr>report_id = new_id, report_product_id = pid, reporter_id = reporter,
               license_number = Some lic, violation_details = details,
               violation_type = Some vtype, severity = sev, status = Open,
               report_created_at = now, report_updated_at = now\<rparr>]\<rparr>))"

definition update_product_status ::
  "string option \<Rightarrow> string \<Rightarrow> compliance_status \<Rightarrow> store \<Rightarrow> storage_error + store" where
  \<comment> \<open>\<^verbatim>\<open>from('products').update({ compliance_status: c }).eq('id', pid)\<close>; the policy
      "Authenticated users can update products" lets every signed-in user write\<close>
  "update_product_status uid pid c s =
     Inr (s\<lparr>products_table :=
            map (\<lambda>p. if product_id p = pid \<and> uid \<noteq> None then p\<lparr>compliance_status := c\<rparr> else p)
                (products_table s)\<rparr>)"

section \<open>The rule authoring page\<close>

record form_data =
  f_rule_name :: string
  f_field_to_validate :: string
  f_rule_type :: rule_type
  f_rule_value :: string
  f_description :: string
  f_is_active :: bool

text \<open>The state of \<^verbatim>\<open>SystemConfigPage\<close>; \<open>rules\<close> is the list on screen.\<close>

record config_page =
  rules :: "rule list"
  loading :: bool
  showForm :: bool
  editingRule :: "rule option"
  formData :: form_data

definition empty_form :: form_data where
  "empty_form = \<lparr>f_rule_name = [], f_field_to_validate = [], f_rule_type = RPresence,
                  f_rule_value = [], f_description = [], f_is_active = True\<rparr>"

definition fetchRules :: "string option \<Rightarrow> store \<Rightarrow> config_page \<Rightarrow> config_page" where
  "fetchRules uid s pg = pg\<lparr>rules := select_rules uid s, loading := False\<rparr>"

definition resetForm :: "config_page \<Rightarrow> config_page" where
  "resetForm pg = pg\<lparr>formData := empty_form, editingRule := None, showForm := False\<rparr>"

definition handleSubmit_rule ::
  "string option \<Rightarrow> string \<Rightarrow> nat \<Rightarrow> store \<times> config_page \<Rightarrow> store \<times> config_page" where
  \<comment> \<open>\<^verbatim>\<open>SystemConfigPage.handleSubmit\<close>; an error of the store is caught and logged,
      and leaves the state as it was\<close>
  "handleSubmit_rule user new_id now w =
     (case w of (s, pg) \<Rightarrow>
      (case user of
         None \<Rightarrow> (s, pg)
       | Some u \<Rightarrow>
           let ruleValue = decodeRuleValue (f_rule_type (formData pg)) (f_rule_value (formData pg));
               ruleData = \<lparr>rule_name = f_rule_name (formData pg),
                           field_to_validate = f_field_to_validate (formData pg),
                           rule_type = f_rule_type (formData pg),
                           rule_value = ruleValue,
                           description = Some (f_description (formData pg)),
                           is_active = f_is_active (formData pg),
                           created_by = Some u\<rparr>
           in (case (case editingRule pg of
                       Some er \<Rightarrow> update_rule user (rule_id er) ruleData s
                     | None \<Rightarrow> insert_rule user new_id now ruleData s) of
                 Inl err \<Rightarrow> (s, pg)
               | Inr s' \<Rightarrow> (s', resetForm (fetchRules user s' pg)))))"

definition handleEdit :: "rule \<Rightarrow> config_page \<Rightarrow> config_page" where
  \<comment> \<open>when \<^verbatim>\<open>formatRuleValue\<close> throws, the handler has set \<^verbatim>\<open>editingRule\<close> and stops
      before it fills and shows the form\<close>
  "handleEdit r pg =
     (case formatRuleValue (rule_value r) (rule_type_name (rule_type r)) of
        Inl err \<Rightarrow> pg\<lparr>editingRule := Some r\<rparr>
      | Inr t \<Rightarrow>
          pg\<lparr>editingRule := Some r,
              formData := \<lparr>f_rule_name = rule_name r,
                            f_field_to_validate = field_to_validate r,
                            f_rule_type = rule_type r,
                            f_rule_value = t,
                            f_description = (case description r of None \<Rightarrow> [] | Some d \<Rightarrow> d),
                            f_is_active = is_active r\<rparr>,
              showForm := True\<rparr>)"

definition handleDelete :: "string option \<Rightarrow> bool \<Rightarrow> string \<Rightarrow> store \<times> config_page \<Rightarrow> store \<times> config_page" where
  \<comment> \<open>the flag is the answer to the confirmation dialogue\<close>
  "handleDelete user confirmed ruleId w =
     (case w of (s, pg) \<Rightarrow>
        if \<not> confirmed then (s, pg)
        else (case delete_rule user ruleId s of
                Inl err \<Rightarrow> (s, pg)
              | Inr s' \<Rightarrow> (s', fetchRules user s' pg)))"

definition toggleRuleStatus :: "string option \<Rightarrow> rule \<Rightarrow> store \<times> config_page \<Rightarrow> store \<times> config_page" where
  "toggleRuleStatus user r w =
     (case w of (s, pg) \<Rightarrow>
        (case update_rule_is_active user (rule_id r) (\<not> is_active r) s of
           Inl err \<Rightarrow> (s, pg)
         | Inr s' \<Rightarrow> (s', fetchRules user s' pg)))"

text \<open>
  What the user can do on the page. The form can be submitted when it is shown and the
  three inputs marked \<^verbatim>\<open>required\<close> are filled in; the buttons of a rule exist for the
  rules on screen.
\<close>

datatype event =
    Load                      \<comment> \<open>the page is mounted: \<^verbatim>\<open>fetchRules\<close>\<close>
  | AddRule                   \<comment> \<open>the button "Add Rule": \<^verbatim>\<open>setShowForm(true)\<close>\<close>
  | Fill form_data            \<comment> \<open>the inputs of the form: \<^verbatim>\<open>setFormData\<close>\<close>
  | Submit string nat         \<comment> \<open>the form is submitted; the id and the time the store would give\<close>
  | Edit rule
  | Toggle rule
  | Delete rule bool
  | Cancel                    \<comment> \<open>\<^verbatim>\<open>resetForm\<close>\<close>

definition can_submit :: "config_page \<Rightarrow> bool" where
  "can_submit pg = (showForm pg \<and> f_rule_name (formData pg) \<noteq> []
                    \<and> f_field_to_validate (formData pg) \<noteq> [] \<and> f_rule_value (formData pg) \<noteq> [])"

definition step :: "string option \<Rightarrow> store \<times> config_page \<Rightarrow> event \<Rightarrow> store \<times> config_page" where
  "step user w ev =
     (case w of (s, pg) \<Rightarrow>
        (case ev of
           Load \<Rightarrow> (s, fetchRules user s pg)
         | AddRule \<Rightarrow> (s, pg\<lparr>showForm := True\<rparr>)
         | Fill fd \<Rightarrow> (if showForm pg then (s, pg\<lparr>formData := fd\<rparr>) else (s, pg))
         | Submit new_id now \<Rightarrow> (if can_submit pg then handleSubmit_rule user new_id now (s, pg) else (s, pg))
         | Edit r \<Rightarrow> (if r \<in> set (rules pg) then (s, handleEdit r pg) else (s, pg))
         | Toggle r \<Rightarrow> (if r \<in> set (rules pg) then toggleRuleStatus user r (s, pg) else (s, pg))
         | Delete r confirmed \<Rightarrow>
             (if r \<in> set (rules pg) then handleDelete user confirmed (rule_id r) (s, pg) else (s, pg))
         | Cancel \<Rightarrow> (s, resetForm pg)))"

definition run :: "string option \<Rightarrow> store \<times> config_page \<Rightarrow> event list \<Rightarrow> store \<times> config_page" where
  "run user w evs = foldl (step user) w evs"

definition empty_store :: store where
  "empty_store = \<lparr>rules_table = [], products_table = [], reports_table = []\<rparr>"

definition fresh_page :: config_page where
  \<comment> \<open>the initial values of the \<^verbatim>\<open>useState\<close> calls\<close>
  "fresh_page = \<lparr>rules = [], loading = True, showForm = False, editingRule = None,
                  formData = empty_form\<rparr>"

section \<open>The report page\<close>

record report_form =
  f_license_number :: string
  f_violation_details :: string
  f_violation_type :: string
  f_severity :: severity

text \<open>The state of \<^verbatim>\<open>ReportFormPage\<close>; \<open>navigated_to\<close> records the call of \<^verbatim>\<open>navigate\<close>.\<close>

record report_page =
  product :: "product option"
  report_loading :: bool
  submitting :: bool
  report_formData :: report_form
  navigated_to :: "string option"

datatype submit_outcome =
    NotReady                  \<comment> \<open>\<^verbatim>\<open>if (!user || !product) return\<close>\<close>
  | Failed storage_error      \<comment> \<open>the insert failed: caught and logged\<close>
  | Submitted

definition handleSubmit_report ::
  "string option \<Rightarrow> string \<Rightarrow> nat \<Rightarrow> store \<times> report_page
     \<Rightarrow> submit_outcome \<times> store \<times> report_page" where
  \<comment> \<open>\<^verbatim>\<open>ReportFormPage.handleSubmit\<close>; the result of the update of the product is not
      looked at by the handler\<close>
  "handleSubmit_report user new_id now w =
     (case w of (s, pg) \<Rightarrow>
      (case (user, product pg) of
         (Some u, Some p) \<Rightarrow>
           (case insert_report user new_id now (product_id p) u
                   (f_license_number (report_formData pg))
                   (f_violation_details (report_formData pg))
                   (f_violation_type (report_formData pg))
                   (f_severity (report_formData pg)) s of
              Inl err \<Rightarrow> (Failed err, s, pg\<lparr>submitting := False\<rparr>)
            | Inr s1 \<Rightarrow>
                (Submitted,
                 (case update_product_status user (product_id p) NonCompliant s1 of
                    Inl err \<Rightarrow> s1
                  | Inr s2 \<Rightarrow> s2),
                 pg\<lparr>submitting := False, navigated_to := Some ''/dashboard''\<rparr>))
       | _ \<Rightarrow> (NotReady, s, pg)))"

section \<open>Shapes of rule values\<close>

definition number_or_null :: "jsval \<Rightarrow> bool" where
  "number_or_null v = (case v of Null \<Rightarrow> True | Num x \<Rightarrow> (case x of Fin m e \<Rightarrow> True | _ \<Rightarrow> False)
                       | _ \<Rightarrow> False)"

definition stored_shape :: "rule_type \<Rightarrow> jsval \<Rightarrow> bool" where
  \<comment> \<open>what the form can store for each type\<close>
  "stored_shape k v = (case k of
       RPresence \<Rightarrow> v = Obj [(''required'', Bool True)]
     | RRegex \<Rightarrow> (case v of Str _ \<Rightarrow> True | _ \<Rightarrow> False)
     | RCustom \<Rightarrow> (case v of Str _ \<Rightarrow> True | _ \<Rightarrow> False)
     | RList \<Rightarrow>
         (case v of
            Arr xs \<Rightarrow> xs \<noteq> [] \<and>
              list_all (\<lambda>x. case x of Str s \<Rightarrow> trimmed s \<and> CHR '','' \<notin> set s | _ \<Rightarrow> False) xs
          | _ \<Rightarrow> False)
     | RRange \<Rightarrow>
         (case v of
            Obj kvs \<Rightarrow> ''min'' \<in> set (map fst kvs) \<and> set (map fst kvs) \<subseteq> {''min'', ''max''}
                       \<and> distinct (map fst kvs) \<and> list_all number_or_null (map snd kvs)
          | _ \<Rightarrow> False))"

definition rules_ok :: "store \<Rightarrow> bool" where
  "rules_ok s = list_all (\<lambda>r. stored_shape (rule_type r) (rule_value r)) (rules_table s)"

definition num_le :: "jsnum \<Rightarrow> jsnum \<Rightarrow> bool" where
  \<comment> \<open>the order of two finite numbers\<close>
  "num_le x y = (case (x, y) of
       (Fin m1 e1, Fin m2 e2) \<Rightarrow>
          m1 * 10 ^ nat (e1 - min e1 e2) \<le> m2 * 10 ^ nat (e2 - min e1 e2)
     | _ \<Rightarrow> False)"

definition spec_shape :: "(string \<Rightarrow> bool) \<Rightarrow> rule_type \<Rightarrow> jsval \<Rightarrow> bool" where
  \<comment> \<open>The canonical shapes in the words of section 4.1 of the specification, to compare
      the stored values with; \<open>compiles\<close> says which patterns are regular expressions.\<close>
  "spec_shape compiles k v = (case k of
       RPresence \<Rightarrow> v = Obj [(''required'', Bool True)]
     | RRegex \<Rightarrow> (case v of Obj kvs \<Rightarrow>
                    (case kvs of [(key, Str p)] \<Rightarrow> key = ''pattern'' \<and> compiles p | _ \<Rightarrow> False)
                  | _ \<Rightarrow> False)
     | RList \<Rightarrow>
         (case v of
            Arr xs \<Rightarrow> xs \<noteq> [] \<and>
              list_all (\<lambda>x. case x of Str s \<Rightarrow> s \<noteq> [] \<and> trimmed s | _ \<Rightarrow> False) xs
          | _ \<Rightarrow> False)
     | RRange \<Rightarrow>
         (case v of
            Obj kvs \<Rightarrow>
              (case (get_prop kvs ''min'', get_prop kvs ''max'') of
                 (Num a, Num b) \<Rightarrow> set (map fst kvs) = {''min'', ''max''} \<and> num_le a b
               | _ \<Rightarrow> False)
          | _ \<Rightarrow> False)
     | RCustom \<Rightarrow> (case v of Str _ \<Rightarrow> True | _ \<Rightarrow> False))"

section \<open>Rows of the migration\<close>

definition sample_rule :: rule where
  \<comment> \<open>the first of the sample rules the migration inserts, which have no creator; the
      id and the times stand for what the database generated\<close>
  "sample_rule =
     \<lparr>rule_name = ''MRP Presence Check'', field_to_validate = ''mrp'',
      rule_type = RPresence, rule_value = Obj [(''required'', Bool True)],
      description = Some ''Ensures MRP is present on product listing'',
      is_active = True, created_by = None,
      rule_id = ''rule-1'', created_at = 0, updated_at = 0\<rparr>"

definition sample_product :: product where
  \<comment> \<open>the first of the sample products the migration inserts\<close>
  "sample_product =
     \<lparr>product_id = ''product-1'', product_name = ''Organic Basmati Rice'',
      manufacturer = Some ''ABC Foods Pvt Ltd'',
      product_description = Some ''Premium quality organic basmati rice'',
      image_url = Some ''https://images.pexels.com/photos/33239/rice-grain-seed-food.jpg'',
      mrp = Some (Fin 29999 (- 2)), net_quantity = Some ''1 kg'',
      country_of_origin = Some ''India'', date_of_manufacture = None,
      consumer_care_details = None, platform = Some ''Amazon'',
      platform_product_id = Some ''AMZ123456'', compliance_status = Compliant,
      product_created_at = 0, product_updated_at = 0\<rparr>"

definition sample_store :: store where
  \<comment> \<open>a store that holds one of the sample rules and one of the sample products\<close>
  "sample_store = \<lparr>rules_table = [sample_rule], products_table = [sample_product],
                    reports_table = []\<rparr>"

section \<open>Rule evaluation\<close>

text \<open>
  The repository declares the type \<^verbatim>\<open>ComplianceViolation\<close> and stores rules, but holds
  no function that evaluates a rule. The definitions of this section follow sections 4.2,
  6 and 7 of the specification. What the specification leaves to collaborators is a
  parameter: the regular expression engine, the registry of custom evaluators, and the
  message and severity of a violation.
\<close>

record violation =
  v_field :: string
  v_rule_name :: string
  v_message :: string
  v_severity :: severity

record engine =
  regex_compiles :: "string \<Rightarrow> bool"
  regex_matches :: "string \<Rightarrow> string \<Rightarrow> bool"
  custom_evaluator :: "rule \<Rightarrow> (product \<Rightarrow> bool) option"
  violation_text :: "rule \<Rightarrow> string \<times> severity"

datatype eval_error = CorruptRule

record eval_result =
  violations :: "violation list"
  skipped :: "string list"

definition product_field :: "product \<Rightarrow> string \<Rightarrow> jsval" where
  \<comment> \<open>Modelled from the spec: the attribute of a product that a target field names
      (section 3), \<open>undefined\<close> when it is absent; the repository has no such lookup.\<close>
  "product_field p f =
     (let text = (\<lambda>x. case x of None \<Rightarrow> Undefined | Some t \<Rightarrow> Str t) in
      if f = ''name'' then Str (product_name p)
      else if f = ''manufacturer'' then text (manufacturer p)
      else if f = ''mrp'' then (case mrp p of None \<Rightarrow> Undefined | Some x \<Rightarrow> Num x)
      else if f = ''net_quantity'' then text (net_quantity p)
      else if f = ''country_of_origin'' then text (country_of_origin p)
      else if f = ''consumer_care_details'' then text (consumer_care_details p)
      else if f = ''date_of_manufacture'' then text (date_of_manufacture p)
      else Undefined)"

definition as_number :: "jsval \<Rightarrow> jsnum option" where
  \<comment> \<open>Modelled from the spec: "the target field parses as a number" (section 4.2).\<close>
  "as_number v = (case v of
       Num x \<Rightarrow> (case x of Fin m e \<Rightarrow> Some x | _ \<Rightarrow> None)
     | Str t \<Rightarrow> (case parseFloat t of Fin m e \<Rightarrow> Some (Fin m e) | _ \<Rightarrow> None)
     | _ \<Rightarrow> None)"

definition field_text :: "jsval \<Rightarrow> string option" where
  \<comment> \<open>Modelled from the spec: the "string form" of a target field that is present
      (section 4.2); \<open>None\<close> when the field is absent.\<close>
  "field_text v = (case v of Undefined \<Rightarrow> None | Null \<Rightarrow> None | _ \<Rightarrow> Some (to_string v))"

definition violated :: "engine \<Rightarrow> rule \<Rightarrow> product \<Rightarrow> bool" where
  \<comment> \<open>Modelled from the spec: the algorithm per kind of section 4.2, for a rule whose
      value has the shape of its kind; the repository has no rule evaluation.\<close>
  "violated eng r p =
     (let v = product_field p (field_to_validate r);
          props = (case rule_value r of Obj kvs \<Rightarrow> kvs | _ \<Rightarrow> []);
          entries = (case rule_value r of Arr xs \<Rightarrow> xs | _ \<Rightarrow> [])
      in case rule_type r of
        RPresence \<Rightarrow>
          field_text v = None \<or> field_text v = Some []
          \<or> (field_to_validate r = ''mrp'' \<and> as_number v = None)
      | RRegex \<Rightarrow>
          (case field_text v of
             None \<Rightarrow> False
           | Some t \<Rightarrow> \<not> regex_matches eng (to_string (get_prop props ''pattern'')) t)
      | RList \<Rightarrow>
          (case field_text v of
             None \<Rightarrow> True
           | Some t \<Rightarrow> Str t \<notin> set entries)
      | RRange \<Rightarrow>
          (case (as_number v, get_prop props ''min'', get_prop props ''max'') of
             (Some x, Num lo, Num hi) \<Rightarrow> \<not> num_le lo x \<or> \<not> num_le x hi
           | _ \<Rightarrow> False)
      | RCustom \<Rightarrow>
          (case custom_evaluator eng r of None \<Rightarrow> False | Some check \<Rightarrow> check p))"

definition evaluate :: "engine \<Rightarrow> rule \<Rightarrow> product \<Rightarrow> eval_error + violation option" where
  \<comment> \<open>Modelled from the spec: \<^verbatim>\<open>evaluate(rule, product) -> Violation | None | Error\<close>
      (section 6); a rule whose value does not have the shape of its kind fails with
      \<open>CorruptRule\<close> (section 4.2). The repository has no such function.\<close>
  "evaluate eng r p =
     (if \<not> spec_shape (regex_compiles eng) (rule_type r) (rule_value r) then Inl CorruptRule
      else if violated eng r p then
        Inr (Some \<lparr>v_field = field_to_validate r, v_rule_name = rule_name r,
                   v_message = fst (violation_text eng r),
                   v_severity = snd (violation_text eng r)\<rparr>)
      else Inr None)"

fun evaluateAll_from :: "engine \<Rightarrow> product \<Rightarrow> rule list \<Rightarrow> eval_result \<Rightarrow> eval_result" where
  \<comment> \<open>Modelled from the spec: the loop of \<^verbatim>\<open>evaluateAll\<close> over the rules in list order;
      only active rules are evaluated, a corrupt rule is skipped and its id recorded
      (sections 4.2 and 7). The repository has no such function.\<close>
  "evaluateAll_from eng p [] acc = acc"
| "evaluateAll_from eng p (r # rs) acc =
     (if \<not> is_active r then evaluateAll_from eng p rs acc
      else (case evaluate eng r p of
              Inl CorruptRule \<Rightarrow> evaluateAll_from eng p rs (acc\<lparr>skipped := skipped acc @ [rule_id r]\<rparr>)
            | Inr None \<Rightarrow> evaluateAll_from eng p rs acc
            | Inr (Some v) \<Rightarrow>
                evaluateAll_from eng p rs (acc\<lparr>violations := violations acc @ [v]\<rparr>)))"

definition evaluateAll :: "engine \<Rightarrow> rule list \<Rightarrow> product \<Rightarrow> eval_result" where
  \<comment> \<open>Modelled from the spec:
      \<^verbatim>\<open>evaluateAll(rules, product) -> { violations, skipped }\<close> (section 6); the
      repository has no such function.\<close>
  "evaluateAll eng rs p = evaluateAll_from eng p rs \<lparr>violations = [], skipped = []\<rparr>"

section \<open>Properties of the codec\<close>

subsection \<open>Splitting, joining and trimming\<close>

lemma split_on_not_Nil: "split_on c s \<noteq> []"
  by (induction s) (auto split: list.splits)

lemma join_with_Cons: "ys \<noteq> [] \<Longrightarrow> join_with sep (x # ys) = x @ sep @ join_with sep ys"
  by (cases ys) auto

lemma join_split_on: "join_with [c] (split_on c s) = s"
proof (induction s)
  case Nil
  show ?case by simp
next
  case (Cons x xs)
  show ?case
  proof (cases "x = c")
    case True
    then show ?thesis using Cons by (simp add: join_with_Cons split_on_not_Nil)
  next
    case False
    obtain y ys where r: "split_on c xs = y # ys"
      using split_on_not_Nil [of c xs] by (cases "split_on c xs") auto
    have "join_with [c] ((x # y) # ys) = x # join_with [c] (y # ys)"
      by (cases ys) auto
    then show ?thesis using False Cons r by simp
  qed
qed

lemma length_split_on: "length (split_on c s) = Suc (count_list s c)"
  by (induction s) (auto split: list.splits simp: split_on_not_Nil)

lemma split_on_no_sep: "p \<in> set (split_on c s) \<Longrightarrow> c \<notin> set p"
  by (induction s arbitrary: p) (auto split: list.splits if_splits)

lemma hd_dropWhile_not: "dropWhile P s \<noteq> [] \<Longrightarrow> \<not> P (hd (dropWhile P s))"
  by (metis hd_dropWhile)

lemma trimmed_trim: "trimmed (trim s)"
proof (cases "trim s = []")
  case True
  then show ?thesis by (simp add: trimmed_def)
next
  case False
  let ?a = "dropWhile is_ws s"
  let ?b = "dropWhile is_ws (rev ?a)"
  have b: "?b \<noteq> []" using False by (simp add: trim_def)
  have l: "\<not> is_ws (hd ?b)" using b by (rule hd_dropWhile_not)
  have "?a = [] \<Longrightarrow> ?b = []" by (simp only: rev.simps dropWhile.simps)
  then have a: "?a \<noteq> []" using b by blast
  have ha: "\<not> is_ws (hd ?a)" using a by (rule hd_dropWhile_not)
  have "last (trim s) = hd ?b" using b by (simp add: trim_def last_rev)
  moreover have "hd (trim s) = hd ?a"
  proof -
    obtain n where n: "?b = drop n (rev ?a)" by (metis dropWhile_eq_drop)
    have "n < length ?a" using b n by (cases "n < length ?a") auto
    then have "rev ?b = take (length ?a - n) ?a" using n by (simp add: rev_drop)
    moreover have "0 < length ?a - n" using \<open>n < length ?a\<close> by simp
    ultimately show ?thesis by (simp add: trim_def hd_take)
  qed
  ultimately show ?thesis using False l ha by (simp add: trimmed_def)
qed

lemma split_on_no_occurrence: "c \<notin> set s \<Longrightarrow> split_on c s = [s]"
  by (induction s) auto

lemma split_on_append: "c \<notin> set a \<Longrightarrow> split_on c (a @ c # b) = a # split_on c b"
  by (induction a) auto

lemma trim_trimmed: "trimmed s \<Longrightarrow> trim s = s"
proof (cases s rule: rev_cases)
  case Nil
  then show ?thesis by (simp add: trim_def)
next
  case (snoc ys y)
  assume t: "trimmed s"
  have h: "\<not> is_ws (hd s)" and l: "\<not> is_ws y" using t snoc by (simp_all add: trimmed_def)
  have sne: "s \<noteq> []" using snoc by simp
  have "dropWhile is_ws s = s" using h sne by (cases s) simp_all
  moreover have "dropWhile is_ws (rev s) = rev s" using l snoc by simp
  ultimately show ?thesis by (simp add: trim_def)
qed

lemma trim_no_ws: "\<forall>c \<in> set s. \<not> is_ws c \<Longrightarrow> trim s = s"
proof (rule trim_trimmed)
  assume "\<forall>c \<in> set s. \<not> is_ws c"
  then show "trimmed s" by (cases s rule: rev_cases) (auto simp: trimmed_def hd_append)
qed

lemma trim_after_blank: "trim (CHR '' '' # s) = trim s"
  by (simp add: trim_def is_ws_def)

lemma split_comma_join:
  "xs \<noteq> [] \<Longrightarrow> \<forall>x \<in> set xs. CHR '','' \<notin> set x \<Longrightarrow>
   split_on CHR '','' (join_with '', '' xs) = hd xs # map ((#) CHR '' '') (tl xs)"
proof (induction "'', ''" xs rule: join_with.induct)
  case 1
  then show ?case by simp
next
  case (2 x)
  then show ?case by (simp add: split_on_no_occurrence)
next
  case (3 x y ys)
  have "split_on CHR '','' (join_with '', '' (y # ys)) = y # map ((#) CHR '' '') ys"
    using 3 by simp
  moreover have "join_with '', '' (x # y # ys) = x @ CHR '','' # CHR '' '' # join_with '', '' (y # ys)"
    by simp
  moreover have "CHR '','' \<notin> set x" using "3.prems" by simp
  ultimately show ?case by (simp add: split_on_append del: join_with.simps)
qed

lemma list_round_trip:
  assumes "xs \<noteq> []" and "\<forall>x \<in> set xs. trimmed x \<and> CHR '','' \<notin> set x"
  shows "map trim (split_on CHR '','' (join_with '', '' xs)) = xs"
proof -
  obtain y ys where xs: "xs = y # ys" using assms(1) by (cases xs) auto
  have "map (\<lambda>x. trim (CHR '' '' # x)) ys = ys"
    using assms(2) xs by (intro map_idI) (simp add: trim_after_blank trim_trimmed)
  then have "map trim (hd xs # map ((#) CHR '' '') (tl xs)) = hd xs # tl xs"
    using assms(2) xs by (simp add: trim_trimmed comp_def)
  then show ?thesis using assms by (simp add: split_comma_join)
qed

subsection \<open>Numbers printed and read back\<close>

lemma below_ten: "k < 10 \<Longrightarrow> k \<in> {0, 1, 2, 3, 4, 5, 6, 7, 8, 9::nat}"
  by auto

lemma is_digit_digit_char: "is_digit (digit_char d)"
  using below_ten [of "d mod 10"] unfolding digit_char_def is_digit_def by auto

lemma digit_val_digit_char: "digit_val (digit_char d) = d mod 10"
  using below_ten [of "d mod 10"] unfolding digit_char_def digit_val_def by auto

lemma is_digit_not_special:
  "is_digit c \<Longrightarrow> \<not> is_ws c \<and> c \<noteq> CHR ''-'' \<and> c \<noteq> CHR ''+'' \<and> c \<noteq> CHR ''.''
     \<and> c \<noteq> CHR ''e'' \<and> c \<noteq> CHR ''E'' \<and> c \<noteq> CHR ''I''"
  by (auto simp: is_digit_def is_ws_def)

lemma digits_of_nat_digits: "c \<in> set (digits_of_nat n) \<Longrightarrow> is_digit c"
proof (induction n arbitrary: c rule: digits_of_nat.induct)
  case (1 n)
  show ?case
  proof (cases "n < 10")
    case True
    then show ?thesis using "1.prems" by (simp add: digits_of_nat.simps [of n] is_digit_digit_char)
  next
    case False
    then show ?thesis using "1.prems" "1.IH"
      by (auto simp: digits_of_nat.simps [of n] is_digit_digit_char)
  qed
qed

lemma digits_of_nat_not_Nil: "digits_of_nat n \<noteq> []"
  by (simp add: digits_of_nat.simps [of n])

lemma nat_of_digits_snoc: "nat_of_digits (xs @ [c]) = 10 * nat_of_digits xs + digit_val c"
  by (simp add: nat_of_digits_def)

lemma nat_of_digits_append:
  "nat_of_digits (xs @ ys) = nat_of_digits xs * 10 ^ length ys + nat_of_digits ys"
proof (induction ys rule: rev_induct)
  case Nil
  show ?case by (simp add: nat_of_digits_def)
next
  case (snoc y ys)
  have "nat_of_digits (xs @ ys @ [y]) = 10 * nat_of_digits (xs @ ys) + digit_val y"
    using nat_of_digits_snoc [of "xs @ ys" y] by simp
  then show ?case using snoc by (simp add: nat_of_digits_snoc algebra_simps)
qed

lemma nat_of_digits_digits: "nat_of_digits (digits_of_nat n) = n"
proof (induction n rule: digits_of_nat.induct)
  case (1 n)
  show ?case
  proof (cases "n < 10")
    case True
    then show ?thesis
      by (simp add: digits_of_nat.simps [of n] nat_of_digits_def digit_val_digit_char)
  next
    case False
    then show ?thesis using "1.IH"
      by (simp add: digits_of_nat.simps [of n] nat_of_digits_snoc digit_val_digit_char)
  qed
qed

lemma nat_of_digits_zeros: "nat_of_digits (replicate j CHR ''0'') = 0"
  by (induction j) (simp_all add: nat_of_digits_def digit_val_def)

lemma nat_of_digits_lt: "\<forall>c \<in> set ds. is_digit c \<Longrightarrow> nat_of_digits ds < 10 ^ length ds"
proof (induction ds rule: rev_induct)
  case Nil
  show ?case by (simp add: nat_of_digits_def)
next
  case (snoc c ds)
  have "is_digit c" using snoc.prems by simp
  then have "digit_val c < 10" by (auto simp: is_digit_def digit_val_def)
  moreover have "nat_of_digits ds < 10 ^ length ds" using snoc by simp
  ultimately show ?case by (simp add: nat_of_digits_snoc)
qed

lemma strip10_scaled:
  "0 < m \<Longrightarrow> m mod 10 \<noteq> 0 \<Longrightarrow> strip10 (m * 10 ^ j) x = (m, x + int j)"
proof (induction j arbitrary: x)
  case 0
  then show ?case by (simp add: strip10.simps [of m x])
next
  case (Suc j)
  have "strip10 (m * 10 ^ Suc j) x = strip10 (m * 10 ^ j) (x + 1)"
    using Suc.prems by (subst strip10.simps) simp
  then show ?case using Suc by simp
qed

lemma mk_fin_scaled:
  "0 < m \<Longrightarrow> m mod 10 \<noteq> 0 \<Longrightarrow> mk_fin False (m * 10 ^ j) x = Fin (int m) (x + int j)"
  by (simp add: mk_fin_def strip10_scaled)

lemma mk_fin_plain:
  "0 < m \<Longrightarrow> m mod 10 \<noteq> 0 \<Longrightarrow> mk_fin False m x = Fin (int m) x"
  using mk_fin_scaled [of m 0 x] by simp

lemma takeWhile_digits:
  "\<forall>c \<in> set ds. is_digit c \<Longrightarrow> r = [] \<or> \<not> is_digit (hd r) \<Longrightarrow> takeWhile is_digit (ds @ r) = ds"
  by (cases r) (auto simp: takeWhile_append2)

lemma dropWhile_digits:
  "\<forall>c \<in> set ds. is_digit c \<Longrightarrow> r = [] \<or> \<not> is_digit (hd r) \<Longrightarrow> dropWhile is_digit (ds @ r) = r"
  by (cases r) (auto simp: dropWhile_append2)


lemma parseFloat_unsigned:
  assumes ne: "ip \<noteq> []" and dg: "\<forall>c \<in> set ip. is_digit c"
    and r: "r = [] \<or> \<not> is_digit (hd r)"
  shows "parseFloat (ip @ r) =
     mk_fin False
       (nat_of_digits (ip @ (case r of [] \<Rightarrow> [] | c # t \<Rightarrow>
                               if c = CHR ''.'' then takeWhile is_digit t else [])))
       (exponent_part (case r of [] \<Rightarrow> [] | c # t \<Rightarrow>
                               if c = CHR ''.'' then dropWhile is_digit t else r)
        - int (length (case r of [] \<Rightarrow> [] | c # t \<Rightarrow>
                               if c = CHR ''.'' then takeWhile is_digit t else [])))"
proof -
  obtain a ip' where ip: "ip = a # ip'" using ne by (cases ip) auto
  have a: "is_digit a" using dg ip by simp
  note sp = is_digit_not_special [OF a]
  have ws: "dropWhile is_ws (ip @ r) = ip @ r" using sp ip by simp
  have sg: "strip_sign (ip @ r) = (False, ip @ r)" using sp ip by (simp add: strip_sign_def)
  have inf: "take 8 (ip @ r) \<noteq> ''Infinity''" using sp ip by simp
  have tw: "takeWhile is_digit (ip @ r) = ip" using dg r by (rule takeWhile_digits)
  have dw: "dropWhile is_digit (ip @ r) = r" using dg r by (rule dropWhile_digits)
  show ?thesis
    unfolding parseFloat_def ws sg using inf ne by (simp add: tw dw Let_def)
qed

lemma exponent_part_plus:
  assumes "xs \<noteq> []" and "\<forall>c \<in> set xs. is_digit c"
  shows "exponent_part (''e+'' @ xs) = int (nat_of_digits xs)"
proof -
  have tw: "takeWhile is_digit xs = xs" using assms(2) by (simp add: takeWhile_eq_all_conv)
  show ?thesis using assms(1) by (simp add: exponent_part_def strip_sign_def Let_def tw)
qed

lemma exponent_part_Nil: "exponent_part [] = 0"
  by (simp add: exponent_part_def)


lemma length_digits_bound: "n < 10 ^ length (digits_of_nat n)"
  using nat_of_digits_lt [of "digits_of_nat n"] digits_of_nat_digits [of _ n]
  by (simp add: nat_of_digits_digits)

lemma plain_print_parse:
  assumes "plain_number x"
  shows "parseFloat (number_to_string x) = x
         \<and> (\<forall>c \<in> set (number_to_string x). is_digit c \<or> c \<in> set ''.e+'')
         \<and> number_to_string x \<noteq> []"
proof -
  obtain m e where x: "x = Fin m e" using assms by (cases x) (auto simp: plain_number_def)
  show ?thesis
  proof (cases "m = 0")
    case True
    then have "e = 0" using assms x by (simp add: plain_number_def)
    then show ?thesis using True x
      by (simp add: number_to_string_def is_digit_def) code_simp
  next
    case False
    then have pos: "0 < m" and m10: "m mod 10 \<noteq> 0" and big: "10 ^ nat (- e) \<le> m * 10 ^ 6"
      using assms x by (auto simp: plain_number_def)
    define M where "M = nat m"
    have "int (M mod 10) = m mod 10" using pos by (simp add: M_def zmod_int)
    then have M: "0 < M" "M mod 10 \<noteq> 0" "int M = m"
      using pos m10 by (auto simp: M_def)
    define ds where "ds = digits_of_nat M"
    define k where "k = int (length ds)"
    define n where "n = k + e"
    have dg: "\<forall>c \<in> set ds. is_digit c" using digits_of_nat_digits ds_def by blast
    have ne: "ds \<noteq> []" by (simp add: ds_def digits_of_nat_not_Nil)
    have val: "nat_of_digits ds = M" by (simp add: ds_def nat_of_digits_digits)
    have kpos: "0 < k" using ne by (simp add: k_def)
    have n6: "- 6 < n"
    proof -
      have "M < 10 ^ length ds" unfolding ds_def by (rule length_digits_bound)
      then have "m < 10 ^ length ds" using M(3) by (metis of_nat_less_iff of_nat_numeral of_nat_power)
      then have "m * 10 ^ 6 < 10 ^ length ds * (10 ^ 6 :: int)" by simp
      then have "(10::int) ^ nat (- e) < 10 ^ (length ds + 6)" using big by (simp add: power_add)
      then have "nat (- e) < length ds + 6" by (simp add: power_strict_increasing_iff)
      then show ?thesis by (simp add: n_def k_def)
    qed
    have str: "number_to_string x =
        (if k \<le> n \<and> n \<le> 21 then ds @ replicate (nat (n - k)) CHR ''0''
         else if 0 < n \<and> n \<le> 21 then take (nat n) ds @ ''.'' @ drop (nat n) ds
         else if - 6 < n \<and> n \<le> 0 then ''0.'' @ replicate (nat (- n)) CHR ''0'' @ ds
         else (if k = 1 then ds else take 1 ds @ ''.'' @ drop 1 ds)
              @ ''e'' @ (if 0 \<le> n - 1 then ''+'' else ''-'')
              @ digits_of_nat (nat \<bar>n - 1\<bar>))"
      using pos False x unfolding number_to_string_def
      by (simp add: Let_def ds_def k_def n_def M_def)
    have e: "e = n - k" by (simp add: n_def)
    have td: "\<And>i. \<forall>c \<in> set (take i ds). is_digit c" using dg by (meson in_set_takeD)
    have dd: "\<And>i. \<forall>c \<in> set (drop i ds). is_digit c" using dg by (meson in_set_dropD)
    have tw_all: "\<And>ys. \<forall>c \<in> set ys. is_digit c \<Longrightarrow> takeWhile is_digit ys = ys"
      by (simp add: takeWhile_eq_all_conv)
    have dw_all: "\<And>ys. \<forall>c \<in> set ys. is_digit c \<Longrightarrow> dropWhile is_digit ys = []"
      by simp
    have z: "is_digit CHR ''0''" by (simp add: is_digit_def)
    consider (A) "k \<le> n" "n \<le> 21" | (B) "0 < n" "n < k" "n \<le> 21"
      | (C) "n \<le> 0" "n < k" | (D) "21 < n"
      using kpos by linarith
    then show ?thesis
    proof cases
      case A
      define j where "j = nat (n - k)"
      define s where "s = ds @ replicate j CHR ''0''"
      have s: "number_to_string x = s" using A by (simp add: str s_def j_def)
      have sd: "\<forall>c \<in> set s. is_digit c" using dg z by (auto simp: s_def)
      have sn: "s \<noteq> []" using ne by (simp add: s_def)
      have "parseFloat (s @ []) = mk_fin False (nat_of_digits s) 0"
        using parseFloat_unsigned [OF sn sd, of "[]"] by (simp add: exponent_part_Nil)
      moreover have "nat_of_digits s = M * 10 ^ j"
        by (simp add: s_def nat_of_digits_append nat_of_digits_zeros val)
      moreover have "int j = e" using A by (simp add: j_def e)
      ultimately have "parseFloat s = x"
        using mk_fin_scaled [OF M(1) M(2), of j 0] M(3) x by simp
      then show ?thesis
        unfolding s using sd sn by blast
    next
      case B
      define ip where "ip = take (nat n) ds"
      define fp where "fp = drop (nat n) ds"
      have s: "number_to_string x = ip @ CHR ''.'' # fp"
        using B by (simp add: str ip_def fp_def)
      have ipn: "ip \<noteq> []" using B ne by (simp add: ip_def)
      have ipd: "\<forall>c \<in> set ip. is_digit c" unfolding ip_def by (rule td)
      have fpd: "\<forall>c \<in> set fp. is_digit c" unfolding fp_def by (rule dd)
      have "parseFloat (ip @ CHR ''.'' # fp) =
              mk_fin False (nat_of_digits (ip @ fp)) (- int (length fp))"
        using parseFloat_unsigned [OF ipn ipd, of "CHR ''.'' # fp"]
        by (simp add: is_digit_def tw_all [OF fpd] dw_all [OF fpd] exponent_part_Nil)
      moreover have "ip @ fp = ds" by (simp add: ip_def fp_def)
      moreover have "- int (length fp) = e" using B by (simp add: fp_def e k_def)
      ultimately have "parseFloat (ip @ CHR ''.'' # fp) = x"
        using mk_fin_plain [OF M(1) M(2), of e] M(3) x val by simp
      moreover have "\<forall>c \<in> set (ip @ CHR ''.'' # fp). is_digit c \<or> c \<in> set ''.e+''"
        using ipd fpd by auto
      ultimately show ?thesis unfolding s by simp
    next
      case C
      define j where "j = nat (- n)"
      define fp where "fp = replicate j CHR ''0'' @ ds"
      have s: "number_to_string x = ''0'' @ CHR ''.'' # fp"
        using C n6 by (simp add: str fp_def j_def)
      have fpd: "\<forall>c \<in> set fp. is_digit c" using dg z by (auto simp: fp_def)
      have "parseFloat (''0'' @ CHR ''.'' # fp) =
              mk_fin False (nat_of_digits (''0'' @ fp)) (- int (length fp))"
        using parseFloat_unsigned [of "''0''" "CHR ''.'' # fp"] z
        by (simp add: is_digit_def tw_all [OF fpd] dw_all [OF fpd] exponent_part_Nil)
      moreover have "nat_of_digits (''0'' @ fp) = M"
      proof -
        have "''0'' @ fp = replicate (Suc j) CHR ''0'' @ ds" by (simp add: fp_def)
        then show ?thesis by (simp only: nat_of_digits_append nat_of_digits_zeros val)
      qed
      moreover have "- int (length fp) = e" using C by (simp add: fp_def e k_def j_def)
      ultimately have "parseFloat (''0'' @ CHR ''.'' # fp) = x"
        using mk_fin_plain [OF M(1) M(2), of e] M(3) x by simp
      moreover have "\<forall>c \<in> set (''0'' @ CHR ''.'' # fp). is_digit c \<or> c \<in> set ''.e+''"
        using fpd z by auto
      ultimately show ?thesis unfolding s by simp
    next
      case D
      define xs where "xs = digits_of_nat (nat \<bar>n - 1\<bar>)"
      have xd: "\<forall>c \<in> set xs. is_digit c" using digits_of_nat_digits xs_def by blast
      have xn: "xs \<noteq> []" by (simp add: xs_def digits_of_nat_not_Nil)
      have xv: "int (nat_of_digits xs) = n - 1" using D by (simp add: xs_def nat_of_digits_digits)
      have ex: "exponent_part (''e+'' @ xs) = n - 1"
        using exponent_part_plus [OF xn xd] xv by simp
      show ?thesis
      proof (cases "k = 1")
        case True
        have s: "number_to_string x = ds @ ''e+'' @ xs"
          using D True kpos by (simp add: str xs_def)
        have "parseFloat (ds @ ''e+'' @ xs) = mk_fin False (nat_of_digits ds) (n - 1)"
          using parseFloat_unsigned [OF ne dg, of "''e+'' @ xs"] ex
          by (simp add: is_digit_def)
        moreover have "n - 1 = e" using True by (simp add: e)
        ultimately have "parseFloat (ds @ ''e+'' @ xs) = x"
          using mk_fin_plain [OF M(1) M(2), of e] M(3) x val by simp
        moreover have "\<forall>c \<in> set (ds @ ''e+'' @ xs). is_digit c \<or> c \<in> set ''.e+''"
          using dg xd by auto
        ultimately show ?thesis unfolding s by simp
      next
        case False
        define ip where "ip = take 1 ds"
        define fp where "fp = drop 1 ds"
        have s: "number_to_string x = ip @ CHR ''.'' # (fp @ ''e+'' @ xs)"
          using D False kpos by (simp add: str xs_def ip_def fp_def)
        have ipn: "ip \<noteq> []" using ne by (simp add: ip_def)
        have ipd: "\<forall>c \<in> set ip. is_digit c" unfolding ip_def by (rule td)
        have fpd: "\<forall>c \<in> set fp. is_digit c" unfolding fp_def by (rule dd)
        have tw: "takeWhile is_digit (fp @ CHR ''e'' # CHR ''+'' # xs) = fp"
          using takeWhile_digits [OF fpd, of "''e+'' @ xs"] by (simp add: is_digit_def)
        have dw: "dropWhile is_digit (fp @ CHR ''e'' # CHR ''+'' # xs) = CHR ''e'' # CHR ''+'' # xs"
          using dropWhile_digits [OF fpd, of "''e+'' @ xs"] by (simp add: is_digit_def)
        have "parseFloat (ip @ CHR ''.'' # (fp @ ''e+'' @ xs)) =
                mk_fin False (nat_of_digits (ip @ fp)) (n - 1 - int (length fp))"
          using parseFloat_unsigned [OF ipn ipd, of "CHR ''.'' # (fp @ ''e+'' @ xs)"] ex
          by (simp add: is_digit_def tw dw)
        moreover have "ip @ fp = ds" by (simp add: ip_def fp_def)
        moreover have "n - 1 - int (length fp) = e"
        proof -
          have "int (length fp) = k - 1" using ne by (cases ds) (simp_all add: fp_def k_def)
          then show ?thesis by (simp add: e)
        qed
        ultimately have "parseFloat (ip @ CHR ''.'' # (fp @ ''e+'' @ xs)) = x"
          using mk_fin_plain [OF M(1) M(2), of e] M(3) x val by simp
        moreover have "\<forall>c \<in> set (ip @ CHR ''.'' # (fp @ ''e+'' @ xs)).
                         is_digit c \<or> c \<in> set ''.e+''"
          using ipd fpd xd by auto
        ultimately show ?thesis unfolding s by simp
      qed
    qed
  qed
qed

lemma plain_chars:
  "is_digit c \<or> c \<in> set ''.e+'' \<Longrightarrow> c \<noteq> CHR ''-'' \<and> \<not> is_ws c"
  by (auto simp: is_digit_def is_ws_def)

lemma range_round_trip:
  assumes a: "plain_number a" and b: "plain_number b"
  shows "decodeRuleValue RRange (number_to_string a @ ''-'' @ number_to_string b) =
           Obj [(''min'', Num a), (''max'', Num b)]"
proof -
  let ?sa = "number_to_string a" and ?sb = "number_to_string b"
  have pa: "parseFloat ?sa = a" and ca: "\<forall>c \<in> set ?sa. is_digit c \<or> c \<in> set ''.e+''"
    using plain_print_parse [OF a] by blast+
  have pb: "parseFloat ?sb = b" and cb: "\<forall>c \<in> set ?sb. is_digit c \<or> c \<in> set ''.e+''"
    using plain_print_parse [OF b] by blast+
  have na: "CHR ''-'' \<notin> set ?sa" and wa: "\<forall>c \<in> set ?sa. \<not> is_ws c"
    using ca plain_chars by blast+
  have nb: "CHR ''-'' \<notin> set ?sb" and wb: "\<forall>c \<in> set ?sb. \<not> is_ws c"
    using cb plain_chars by blast+
  have "split_on CHR ''-'' (?sa @ CHR ''-'' # ?sb) = [?sa, ?sb]"
    using na nb by (simp add: split_on_append split_on_no_occurrence)
  then show ?thesis
    by (simp add: decodeRuleValue_def nth_or_undefined_def trim_no_ws [OF wa] trim_no_ws [OF wb] pa pb)
qed

subsection \<open>Decoding\<close>


text \<open>
  Claim C8. For every text of the form, the value stored for a rule of type
  \<open>presence\<close> is the object \<open>{ required: true }\<close>: the text is not read, and no text
  is refused.
\<close>

theorem presence_decode_ignores_text:
  "decodeRuleValue RPresence text = Obj [(''required'', Bool True)]"
  by (simp add: decodeRuleValue_def)


text \<open>
  Claim C5, as stated, fails: the text \<open>" , "\<close> (a comma between two blanks) is accepted
  for a rule of type \<open>list\<close>, and the value stored has two empty entries.
\<close>

theorem list_decode_keeps_empty_entries:
  "decodeRuleValue RList '' , '' = Arr [Str [], Str []]"
  by code_simp

text \<open>
  Claim C5, amended. For every text, the value of a rule of type \<open>list\<close> is the ordered
  sequence of the pieces between the commas of the text, each piece trimmed: the pieces
  joined with a comma are the text again, there is one piece more than there are commas
  (so at least one entry, for every text), no piece holds a comma, and no entry has white
  space at either end. Empty entries are kept and no text is refused.
\<close>

theorem list_decode_splits_and_trims:
  "decodeRuleValue RList text = Arr (map (\<lambda>p. Str (trim p)) (split_on CHR '','' text))
   \<and> join_with '','' (split_on CHR '','' text) = text
   \<and> length (split_on CHR '','' text) = Suc (count_list text CHR '','')
   \<and> (\<forall>p \<in> set (split_on CHR '','' text). CHR '','' \<notin> set p \<and> trimmed (trim p))"
  by (simp add: decodeRuleValue_def join_split_on length_split_on split_on_no_sep trimmed_trim)

theorem list_decode_splits_and_trims_witness:
  "decodeRuleValue RList '' a, ,b'' = Arr [Str ''a'', Str [], Str ''b'']
   \<and> split_on CHR '','' '' a, ,b'' = ['' a'', '' '', ''b'']
   \<and> CHR '','' \<notin> set '' a'' \<and> trimmed (trim '' a'')
   \<and> CHR '','' \<notin> set '' '' \<and> trimmed (trim '' '')"
proof -
  have s: "split_on CHR '','' '' a, ,b'' = ['' a'', '' '', ''b'']" by simp
  have t: "map (\<lambda>p. Str (trim p)) ['' a'', '' '', ''b''] = [Str ''a'', Str [], Str ''b'']"
    by (simp add: trim_def is_ws_def)
  show ?thesis
    using list_decode_splits_and_trims [of "'' a, ,b''"] unfolding s t by simp
qed

text \<open>
  Claim C3, as stated, fails: the text \<open>"10-5"\<close> is not refused for a rule of type
  \<open>range\<close>; the value \<open>{ min: 10, max: 5 }\<close> is built from it.
\<close>

theorem range_decode_accepts_min_above_max:
  "decodeRuleValue RRange ''10-5'' = Obj [(''min'', Num (js_nat 10)), (''max'', Num (js_nat 5))]"
  by code_simp

text \<open>
  Claim C3, amended. For every text, the value of a rule of type \<open>range\<close> is the object
  \<open>{ min, max }\<close> where \<open>min\<close> is \<^verbatim>\<open>parseFloat\<close> of the trimmed first piece of the text
  split at \<open>-\<close>, and \<open>max\<close> is \<^verbatim>\<open>parseFloat\<close> of the trimmed second piece, or
  \<open>undefined\<close> when the text holds no \<open>-\<close>; further pieces are not read, and no text
  is refused. In particular \<open>"0-1000"\<close> gives \<open>{ min: 0, max: 1000 }\<close>.
\<close>

theorem range_decode_parses_two_parts:
  "(\<exists>p ps. split_on CHR ''-'' text = p # ps
      \<and> join_with ''-'' (p # ps) = text
      \<and> decodeRuleValue RRange text =
          Obj [(''min'', Num (parseFloat (trim p))),
               (''max'', (case ps of [] \<Rightarrow> Undefined | q # _ \<Rightarrow> Num (parseFloat (trim q))))])
   \<and> decodeRuleValue RRange ''0-1000'' =
        Obj [(''min'', Num (js_nat 0)), (''max'', Num (js_nat 1000))]"
proof
  obtain p ps where s: "split_on CHR ''-'' text = p # ps"
    using split_on_not_Nil [of "CHR ''-''" "text"] by (cases "split_on CHR ''-'' text") auto
  have j: "join_with ''-'' (p # ps) = text"
    using join_split_on [of "CHR ''-''" "text"] s by simp
  have "decodeRuleValue RRange text =
          Obj [(''min'', Num (parseFloat (trim p))),
               (''max'', (case ps of [] \<Rightarrow> Undefined | q # _ \<Rightarrow> Num (parseFloat (trim q))))]"
    using s by (cases ps) (simp_all add: decodeRuleValue_def nth_or_undefined_def)
  with s j show "\<exists>p ps. split_on CHR ''-'' text = p # ps
      \<and> join_with ''-'' (p # ps) = text
      \<and> decodeRuleValue RRange text =
          Obj [(''min'', Num (parseFloat (trim p))),
               (''max'', (case ps of [] \<Rightarrow> Undefined | q # _ \<Rightarrow> Num (parseFloat (trim q))))]"
    by blast
next
  show "decodeRuleValue RRange ''0-1000'' =
        Obj [(''min'', Num (js_nat 0)), (''max'', Num (js_nat 1000))]"
    by code_simp
qed

text \<open>
  Claim C4, as stated, fails: the text \<open>"["\<close>, which is not a regular expression, is
  not refused for a rule of type \<open>regex\<close>; it is the value that is stored.
\<close>

theorem regex_decode_accepts_open_bracket:
  "decodeRuleValue RRegex ''['' = Str ''[''"
  by (simp add: decodeRuleValue_def)

text \<open>
  Claim C4, amended. For every text, the value of a rule of type \<open>regex\<close> is the text
  itself, as a string: the pattern is not compiled and no text is refused, so
  \<open>"^[A-Z]{2}$"\<close> is accepted and so is \<open>"["\<close>.
\<close>

theorem regex_decode_is_the_text:
  "decodeRuleValue RRegex text = Str text"
  by (simp add: decodeRuleValue_def)



subsection \<open>Encoding\<close>

text \<open>
  Claim C7. \<^verbatim>\<open>formatRuleValue\<close> gives, for type \<open>list\<close> and an array of strings, the
  entries joined with \<open>", "\<close>; for type \<open>range\<close> and an object whose \<open>min\<close> and \<open>max\<close>
  are numbers, the two numbers as JavaScript prints them with \<open>-\<close> between; for every
  other type, a string unchanged and any other value as \<^verbatim>\<open>JSON.stringify\<close> writes
  it - so \<open>{ required: true }\<close> becomes \<open>{"required":true}\<close> and \<open>{ pattern: p }\<close> becomes
  \<open>{"pattern":"p"}\<close> with \<open>p\<close> quoted as JSON.
\<close>

theorem formatRuleValue_by_kind:
  "formatRuleValue (Arr (map Str xs)) ''list'' = Inr (join_with '', '' xs)
   \<and> (get_prop kvs ''min'' = Num a \<and> get_prop kvs ''max'' = Num b \<longrightarrow>
        formatRuleValue (Obj kvs) ''range'' = Inr (number_to_string a @ ''-'' @ number_to_string b))
   \<and> (k \<noteq> RList \<and> k \<noteq> RRange \<longrightarrow> formatRuleValue (Str s) (rule_type_name k) = Inr s)
   \<and> (k \<noteq> RList \<and> k \<noteq> RRange \<and> typeof v \<noteq> ''string'' \<and> json_stringify v = Some j \<longrightarrow>
        formatRuleValue v (rule_type_name k) = Inr j)
   \<and> json_stringify (Obj [(''required'', Bool True)]) =
        Some ([CHR ''{'', CHR 0x22] @ ''required'' @ [CHR 0x22] @ '':true}'')
   \<and> json_stringify (Obj [(''pattern'', Str p)]) =
        Some ([CHR ''{'', CHR 0x22] @ ''pattern'' @ [CHR 0x22, CHR '':''] @ json_quote p @ ''}'')"
proof -
  have 1: "formatRuleValue (Arr (map Str xs)) ''list'' = Inr (join_with '', '' xs)"
    by (simp add: formatRuleValue_def isArray_def array_join_def comp_def)
  have 2: "get_prop kvs ''min'' = Num a \<and> get_prop kvs ''max'' = Num b \<longrightarrow>
        formatRuleValue (Obj kvs) ''range'' = Inr (number_to_string a @ ''-'' @ number_to_string b)"
    by (simp add: formatRuleValue_def isArray_def typeof_def)
  have 3: "k \<noteq> RList \<and> k \<noteq> RRange \<longrightarrow> formatRuleValue (Str s) (rule_type_name k) = Inr s"
    by (cases k) (simp_all add: formatRuleValue_def rule_type_name_def isArray_def typeof_def)
  have 4: "k \<noteq> RList \<and> k \<noteq> RRange \<and> typeof v \<noteq> ''string'' \<and> json_stringify v = Some j \<longrightarrow>
        formatRuleValue v (rule_type_name k) = Inr j"
    by (cases k; cases v)
       (simp_all add: formatRuleValue_def rule_type_name_def isArray_def typeof_def)
  have 5: "json_stringify (Obj [(''required'', Bool True)]) =
        Some ([CHR ''{'', CHR 0x22] @ ''required'' @ [CHR 0x22] @ '':true}'')"
    by (simp add: json_quote_def json_escape_def)
  have 6: "json_stringify (Obj [(''pattern'', Str p)]) =
        Some ([CHR ''{'', CHR 0x22] @ ''pattern'' @ [CHR 0x22, CHR '':''] @ json_quote p @ ''}'')"
    by (simp add: json_quote_def json_escape_def)
  show ?thesis using 1 2 3 4 5 6 by blast
qed

theorem formatRuleValue_by_kind_witness:
  "formatRuleValue (Arr [Str ''IN'', Str ''US'']) ''list'' = Inr ''IN, US''
   \<and> formatRuleValue (Obj [(''max'', Num (js_nat 1000)), (''min'', Num (js_nat 0))]) ''range''
       = Inr ''0-1000''
   \<and> formatRuleValue (Str ''^[A-Z]{2}$'') ''regex'' = Inr ''^[A-Z]{2}$''
   \<and> formatRuleValue (Obj [(''required'', Bool True)]) ''presence''
       = Inr ([CHR ''{'', CHR 0x22] @ ''required'' @ [CHR 0x22] @ '':true}'')"
proof -
  have h2: "get_prop [(''max'', Num (js_nat 1000)), (''min'', Num (js_nat 0))] ''min'' = Num (js_nat 0)
     \<and> get_prop [(''max'', Num (js_nat 1000)), (''min'', Num (js_nat 0))] ''max'' = Num (js_nat 1000)"
    by (simp add: get_prop_def)
  have h3: "RRegex \<noteq> RList \<and> RRegex \<noteq> RRange" by simp
  have h4: "RPresence \<noteq> RList \<and> RPresence \<noteq> RRange
     \<and> typeof (Obj [(''required'', Bool True)]) \<noteq> ''string''
     \<and> json_stringify (Obj [(''required'', Bool True)])
         = Some ([CHR ''{'', CHR 0x22] @ ''required'' @ [CHR 0x22] @ '':true}'')"
    by (simp add: typeof_def json_quote_def json_escape_def)
  have e: "number_to_string (js_nat 0) @ ''-'' @ number_to_string (js_nat 1000) = ''0-1000''"
    by code_simp
  have n3: "rule_type_name RRegex = ''regex''" and n4: "rule_type_name RPresence = ''presence''"
    by (simp_all add: rule_type_name_def)
  note t3 = formatRuleValue_by_kind
    [of "[''IN'', ''US'']" "[(''max'', Num (js_nat 1000)), (''min'', Num (js_nat 0))]"
        "js_nat 0" "js_nat 1000" RRegex "''^[A-Z]{2}$''"]
  note t4 = formatRuleValue_by_kind
    [of _ _ _ _ RPresence _ "Obj [(''required'', Bool True)]"
        "[CHR ''{'', CHR 0x22] @ ''required'' @ [CHR 0x22] @ '':true}''"]
  show ?thesis using t3 t4 h2 h3 h4 unfolding e n3 n4 by simp
qed

subsection \<open>Decoding what was encoded\<close>

text \<open>
  Claim C1, as stated, fails. The object \<open>{ pattern: "^[A-Z]{2}$" }\<close> of a \<open>regex\<close> rule
  is encoded as its JSON text and decoded as that text, a string; the range
  \<open>{ min: -5, max: 10 }\<close> is encoded as \<open>"-5-10"\<close> and decoded as \<open>{ min: NaN, max: 5 }\<close>;
  the range \<open>{ min: 0.0000001, max: 1 }\<close> is encoded as \<open>"1e-7-1"\<close> and decoded as
  \<open>{ min: 1, max: 7 }\<close>; the list of the one entry \<open>"a,b"\<close> is encoded as \<open>"a,b"\<close> and
  decoded as two entries.
\<close>

theorem codec_round_trip_fails:
  "formatRuleValue (Obj [(''pattern'', Str ''^[A-Z]{2}$'')]) ''regex''
     = Inr (''{'' @ json_quote ''pattern'' @ '':'' @ json_quote ''^[A-Z]{2}$'' @ ''}'')
   \<and> decodeRuleValue RRegex (''{'' @ json_quote ''pattern'' @ '':'' @ json_quote ''^[A-Z]{2}$'' @ ''}'')
     = Str (''{'' @ json_quote ''pattern'' @ '':'' @ json_quote ''^[A-Z]{2}$'' @ ''}'')
   \<and> formatRuleValue (Obj [(''min'', Num (Fin (- 5) 0)), (''max'', Num (js_nat 10))]) ''range''
     = Inr ''-5-10''
   \<and> decodeRuleValue RRange ''-5-10'' = Obj [(''min'', Num NaN), (''max'', Num (js_nat 5))]
   \<and> formatRuleValue (Obj [(''min'', Num (Fin 1 (- 7))), (''max'', Num (js_nat 1))]) ''range''
     = Inr ''1e-7-1''
   \<and> decodeRuleValue RRange ''1e-7-1'' = Obj [(''min'', Num (js_nat 1)), (''max'', Num (js_nat 7))]
   \<and> formatRuleValue (Arr [Str ''a,b'']) ''list'' = Inr ''a,b''
   \<and> decodeRuleValue RList ''a,b'' = Arr [Str ''a'', Str ''b'']"
  by code_simp

text \<open>
  Claim C1, amended. Decoding the encoded text under the same type returns the value for:
  \<open>{ required: true }\<close> of type \<open>presence\<close>; a string of type \<open>regex\<close> or \<open>custom\<close> (the
  form keeps the pattern as a plain string); a non-empty array of strings of type
  \<open>list\<close> whose entries have no white space at either end and hold no comma; and
  \<open>{ min, max }\<close> of type \<open>range\<close> where each number is zero or at least \<open>0.000001\<close>.
\<close>

theorem codec_round_trip:
  assumes "codec_value k v"
  shows "\<exists>t. formatRuleValue v (rule_type_name k) = Inr t \<and> decodeRuleValue k t = v"
proof (cases k)
  case RPresence
  then show ?thesis using assms
    by (simp add: codec_value_def formatRuleValue_def rule_type_name_def isArray_def typeof_def
        decodeRuleValue_def)
next
  case RRegex
  then show ?thesis using assms
    by (auto simp: codec_value_def formatRuleValue_def rule_type_name_def isArray_def typeof_def
        decodeRuleValue_def split: jsval.splits)
next
  case RCustom
  then show ?thesis using assms
    by (auto simp: codec_value_def formatRuleValue_def rule_type_name_def isArray_def typeof_def
        decodeRuleValue_def split: jsval.splits)
next
  case RList
  then obtain vs where v: "v = Arr vs" and ne: "vs \<noteq> []"
    and ok: "list_all (\<lambda>x. case x of Str s \<Rightarrow> trimmed s \<and> CHR '','' \<notin> set s | _ \<Rightarrow> False) vs"
    using assms by (auto simp: codec_value_def split: jsval.splits)
  define xs where "xs = map (\<lambda>x. case x of Str s \<Rightarrow> s | _ \<Rightarrow> []) vs"
  have vs: "vs = map Str xs"
    using ok unfolding xs_def by (induction vs) (auto split: jsval.splits)
  have xok: "\<forall>x \<in> set xs. trimmed x \<and> CHR '','' \<notin> set x"
    using ok unfolding xs_def by (induction vs) (auto split: jsval.splits)
  have xne: "xs \<noteq> []" using ne vs by auto
  have enc: "formatRuleValue v ''list'' = Inr (join_with '', '' xs)"
    by (simp add: v vs formatRuleValue_def isArray_def array_join_def comp_def)
  have "decodeRuleValue RList (join_with '', '' xs) = Arr (map Str (map trim (split_on CHR '','' (join_with '', '' xs))))"
    by (simp add: decodeRuleValue_def comp_def)
  then have "decodeRuleValue RList (join_with '', '' xs) = v"
    using list_round_trip [OF xne xok] v vs by simp
  then show ?thesis using enc RList by (simp add: rule_type_name_def)
next
  case RRange
  then obtain a b where v: "v = Obj [(''min'', Num a), (''max'', Num b)]"
    and a: "plain_number a" and b: "plain_number b"
    using assms by (auto simp: codec_value_def split: jsval.splits)
  have enc: "formatRuleValue v ''range'' = Inr (number_to_string a @ ''-'' @ number_to_string b)"
    by (simp add: v formatRuleValue_def isArray_def typeof_def get_prop_def)
  show ?thesis using enc range_round_trip [OF a b] v RRange by (simp add: rule_type_name_def)
qed


theorem codec_round_trip_witness:
  "codec_value RRange (Obj [(''min'', Num (js_nat 0)), (''max'', Num (js_nat 1000))])
   \<and> decodeRuleValue RRange ''0-1000'' = Obj [(''min'', Num (js_nat 0)), (''max'', Num (js_nat 1000))]"
proof -
  let ?v = "Obj [(''min'', Num (js_nat 0)), (''max'', Num (js_nat 1000))]"
  have h: "codec_value RRange ?v" by code_simp
  have f: "formatRuleValue ?v (rule_type_name RRange) = Inr ''0-1000''" by code_simp
  obtain t where "formatRuleValue ?v (rule_type_name RRange) = Inr t"
    and "decodeRuleValue RRange t = ?v"
    using codec_round_trip [OF h] by blast
  then show ?thesis using h f by simp
qed


section \<open>Properties of rule authoring\<close>

subsection \<open>The shape of stored rule values\<close>

lemma set_trim: "set (trim p) \<subseteq> set p"
proof
  fix x assume "x \<in> set (trim p)"
  then have "x \<in> set (dropWhile is_ws (rev (dropWhile is_ws p)))" by (simp add: trim_def)
  then have "x \<in> set (rev (dropWhile is_ws p))" by (rule set_dropWhileD)
  then have "x \<in> set (dropWhile is_ws p)" by simp
  then show "x \<in> set p" by (rule set_dropWhileD)
qed

lemma wire_num: "number_or_null (wire (Num x))"
  by (cases x) (simp_all add: number_or_null_def)

lemma stored_shape_decode: "stored_shape k (wire (decodeRuleValue k t))"
proof (cases k)
  case RPresence
  then show ?thesis by (simp add: stored_shape_def decodeRuleValue_def)
next
  case RRegex
  then show ?thesis by (simp add: stored_shape_def decodeRuleValue_def)
next
  case RCustom
  then show ?thesis by (simp add: stored_shape_def decodeRuleValue_def)
next
  case RList
  have "\<forall>p \<in> set (split_on CHR '','' t). trimmed (trim p) \<and> CHR '','' \<notin> set (trim p)"
    using split_on_no_sep set_trim trimmed_trim by blast
  then show ?thesis using RList
    by (simp add: stored_shape_def decodeRuleValue_def comp_def list_all_iff split_on_not_Nil)
next
  case RRange
  obtain p ps where s: "split_on CHR ''-'' t = p # ps"
    using split_on_not_Nil [of "CHR ''-''" t] by (cases "split_on CHR ''-'' t") auto
  show ?thesis
  proof (cases ps)
    case Nil
    then show ?thesis using RRange s wire_num [of "parseFloat (trim p)"]
      by (simp add: stored_shape_def decodeRuleValue_def nth_or_undefined_def del: wire.simps(4))
  next
    case (Cons q qs)
    then show ?thesis using RRange s wire_num [of "parseFloat (trim p)"] wire_num [of "parseFloat (trim q)"]
      by (simp add: stored_shape_def decodeRuleValue_def nth_or_undefined_def del: wire.simps(4))
  qed
qed

lemma wire_decode_defined: "wire (decodeRuleValue k t) \<noteq> Undefined"
  by (cases k) (simp_all add: decodeRuleValue_def Let_def)

lemma rules_ok_insert:
  assumes "rules_ok s" and "insert_rule uid i n d s = Inr s'"
    and "stored_shape (rule_type d) (wire (rule_value d))"
  shows "rules_ok s'"
  using assms by (auto simp: rules_ok_def insert_rule_def split: if_splits)

lemma rules_ok_update:
  assumes "rules_ok s" and "update_rule uid rid d s = Inr s'"
    and "stored_shape (rule_type d) (wire (rule_value d))" and "wire (rule_value d) \<noteq> Undefined"
  shows "rules_ok s'"
  using assms by (auto simp: rules_ok_def update_rule_def list_all_iff split: if_splits)

lemma rules_ok_toggle:
  "rules_ok s \<Longrightarrow> update_rule_is_active uid rid b s = Inr s' \<Longrightarrow> rules_ok s'"
  by (auto simp: rules_ok_def update_rule_is_active_def list_all_iff)

lemma rules_ok_delete:
  "rules_ok s \<Longrightarrow> delete_rule uid rid s = Inr s' \<Longrightarrow> rules_ok s'"
  by (auto simp: rules_ok_def delete_rule_def list_all_iff)

lemma rules_ok_handleSubmit:
  assumes "rules_ok s"
  shows "rules_ok (fst (handleSubmit_rule user i n (s, pg)))"
proof (cases user)
  case None
  then show ?thesis using assms by (simp add: handleSubmit_rule_def)
next
  case (Some u)
  let ?d = "\<lparr>rule_name = f_rule_name (formData pg),
             field_to_validate = f_field_to_validate (formData pg),
             rule_type = f_rule_type (formData pg),
             rule_value = decodeRuleValue (f_rule_type (formData pg)) (f_rule_value (formData pg)),
             description = Some (f_description (formData pg)),
             is_active = f_is_active (formData pg),
             created_by = Some u\<rparr>"
  have sh: "stored_shape (rule_type ?d) (wire (rule_value ?d))"
    by (simp add: stored_shape_decode)
  have df: "wire (rule_value ?d) \<noteq> Undefined" by (simp add: wire_decode_defined)
  show ?thesis
  proof (cases "editingRule pg")
    case None
    show ?thesis
    proof (cases "insert_rule user i n ?d s")
      case (Inl e)
      then show ?thesis using assms Some None by (simp add: handleSubmit_rule_def Let_def)
    next
      case (Inr s')
      then have "rules_ok s'" using rules_ok_insert [OF assms _ sh] by blast
      then show ?thesis using Some None Inr by (simp add: handleSubmit_rule_def Let_def)
    qed
  next
    case er: (Some er)
    show ?thesis
    proof (cases "update_rule user (rule_id er) ?d s")
      case (Inl e)
      then show ?thesis using assms Some er by (simp add: handleSubmit_rule_def Let_def)
    next
      case (Inr s')
      then have "rules_ok s'" using rules_ok_update [OF assms _ sh df] by blast
      then show ?thesis using Some er Inr by (simp add: handleSubmit_rule_def Let_def)
    qed
  qed
qed

lemma rules_ok_step: "rules_ok (fst w) \<Longrightarrow> rules_ok (fst (step user w ev))"
proof (cases w)
  case (Pair s pg)
  assume "rules_ok (fst w)"
  then have ok: "rules_ok s" using Pair by simp
  show ?thesis
  proof (cases ev)
    case (Submit i n)
    then show ?thesis using ok Pair rules_ok_handleSubmit [OF ok, of user i n pg]
      by (simp add: step_def)
  next
    case (Toggle r)
    then show ?thesis using ok Pair rules_ok_toggle [OF ok, of user "rule_id r" "\<not> is_active r"]
      by (simp add: step_def toggleRuleStatus_def update_rule_is_active_def)
  next
    case (Delete r c)
    then show ?thesis using ok Pair rules_ok_delete [OF ok, of user "rule_id r"]
      by (simp add: step_def handleDelete_def delete_rule_def)
  qed (use ok Pair in \<open>simp_all add: step_def\<close>)
qed

lemma rules_ok_run: "rules_ok (fst w) \<Longrightarrow> rules_ok (fst (run user w evs))"
  unfolding run_def
  by (induction evs arbitrary: w) (simp_all add: rules_ok_step)

lemma handleSubmit_rule_rows:
  assumes "r \<in> set (rules_table (fst (handleSubmit_rule user i n (s, pg))))"
  shows "r \<in> set (rules_table s)
     \<or> (rule_type r = f_rule_type (formData pg)
        \<and> rule_value r = wire (decodeRuleValue (f_rule_type (formData pg)) (f_rule_value (formData pg))))"
proof (cases user)
  case None
  then show ?thesis using assms by (simp add: handleSubmit_rule_def)
next
  case (Some u)
  note df = wire_decode_defined [of "f_rule_type (formData pg)" "f_rule_value (formData pg)"]
  show ?thesis
  proof (cases "editingRule pg")
    case None
    then show ?thesis using assms Some
      by (auto simp: handleSubmit_rule_def Let_def insert_rule_def split: if_splits)
  next
    case er: (Some er)
    then show ?thesis using assms Some df
      by (auto simp: handleSubmit_rule_def Let_def update_rule_def split: if_splits)
  qed
qed

lemma handleSubmit_rule_insert:
  assumes "user = Some u" and "editingRule pg = None"
    and "i \<notin> set (map rule_id (rules_table s))"
  shows "rules_table (fst (handleSubmit_rule user i n (s, pg))) =
     rules_table s @
       [\<lparr>rule_name = f_rule_name (formData pg),
         field_to_validate = f_field_to_validate (formData pg),
         rule_type = f_rule_type (formData pg),
         rule_value = wire (decodeRuleValue (f_rule_type (formData pg)) (f_rule_value (formData pg))),
         description = Some (f_description (formData pg)),
         is_active = f_is_active (formData pg),
         created_by = Some u,
         rule_id = i, created_at = n, updated_at = n\<rparr>]"
  using assms wire_decode_defined [of "f_rule_type (formData pg)" "f_rule_value (formData pg)"]
  by (simp add: handleSubmit_rule_def Let_def insert_rule_def)

lemma handleSubmit_rule_update:
  assumes "user = Some u" and "editingRule pg = Some er"
  shows "rules_table (fst (handleSubmit_rule user i n (s, pg))) =
     map (\<lambda>r. if rule_id r = rule_id er \<and> created_by r = Some u
              then r\<lparr>rule_name := f_rule_name (formData pg),
                     field_to_validate := f_field_to_validate (formData pg),
                     rule_type := f_rule_type (formData pg),
                     rule_value := wire (decodeRuleValue (f_rule_type (formData pg))
                                                         (f_rule_value (formData pg))),
                     description := Some (f_description (formData pg)),
                     is_active := f_is_active (formData pg),
                     created_by := Some u\<rparr>
              else r)
         (rules_table s)"
  using assms wire_decode_defined [of "f_rule_type (formData pg)" "f_rule_value (formData pg)"]
  by (simp add: handleSubmit_rule_def Let_def update_rule_def may_write_rule_def)

text \<open>
  Claim C2, as stated, fails. A rule of type \<open>list\<close> submitted with the text \<open>" , "\<close> is
  stored with two empty entries. And when a \<open>presence\<close> rule is edited and only its type
  is changed to \<open>range\<close>, the submission is neither refused nor is the value reset: the
  text of the old value is decoded as a range and \<open>{ min: null }\<close> is stored.
\<close>

theorem authoring_stores_inconsistent_value:
  "rules_table (fst (run (Some ''u1'') (empty_store, fresh_page)
      [Load, AddRule,
       Fill \<lparr>f_rule_name = ''Origin'', f_field_to_validate = ''country_of_origin'',
             f_rule_type = RList, f_rule_value = '' , '', f_description = [],
             f_is_active = True\<rparr>,
       Submit ''rule-2'' 1]))
   = [\<lparr>rule_name = ''Origin'', field_to_validate = ''country_of_origin'',
        rule_type = RList, rule_value = Arr [Str [], Str []],
        description = Some [], is_active = True, created_by = Some ''u1'',
        rule_id = ''rule-2'', created_at = 1, updated_at = 1\<rparr>]
   \<and> \<not> spec_shape (\<lambda>p. True) RList (Arr [Str [], Str []])
   \<and> rules_table (fst (run (Some ''u1'') (empty_store, fresh_page)
      [Load, AddRule,
       Fill \<lparr>f_rule_name = ''MRP'', f_field_to_validate = ''mrp'',
             f_rule_type = RPresence, f_rule_value = ''required'', f_description = [],
             f_is_active = True\<rparr>,
       Submit ''rule-2'' 1,
       Edit \<lparr>rule_name = ''MRP'', field_to_validate = ''mrp'',
             rule_type = RPresence, rule_value = Obj [(''required'', Bool True)],
             description = Some [], is_active = True, created_by = Some ''u1'',
             rule_id = ''rule-2'', created_at = 1, updated_at = 1\<rparr>,
       Fill \<lparr>f_rule_name = ''MRP'', f_field_to_validate = ''mrp'',
             f_rule_type = RRange,
             f_rule_value = ''{'' @ json_quote ''required'' @ '':true}'',
             f_description = [], f_is_active = True\<rparr>,
       Submit ''rule-3'' 2]))
   = [\<lparr>rule_name = ''MRP'', field_to_validate = ''mrp'',
        rule_type = RRange, rule_value = Obj [(''min'', Null)],
        description = Some [], is_active = True, created_by = Some ''u1'',
        rule_id = ''rule-2'', created_at = 1, updated_at = 1\<rparr>]
   \<and> \<not> spec_shape (\<lambda>p. True) RRange (Obj [(''min'', Null)])"
  by code_simp

text \<open>
  Claim C2, amended. Nothing is refused and nothing is reset: when a signed-in user
  submits the form for a new rule (with an id the table does not hold yet), the table
  gains exactly one row, with the type of the form and, as its value, what decoding the
  text of the form under that type gives, as \<^verbatim>\<open>jsonb\<close> keeps it; when the user submits
  the form for a rule being edited, the rows with that id which the user created get the
  type and the decoded value of the form together, and the other rows stay. So every row
  after a submission is an old row or has the type and the decoded value of the form. The
  decoded value is \<open>{ required: true }\<close> for \<open>presence\<close>; a string, not validated, for
  \<open>regex\<close> and \<open>custom\<close>; a non-empty array of trimmed strings without commas (empty
  strings allowed) for \<open>list\<close>; an object with \<open>min\<close> and possibly \<open>max\<close>, each a finite
  number or \<open>null\<close>, for \<open>range\<close>. A rule table in which every value has this shape keeps
  it under every sequence of actions on the page; the empty table is one.
\<close>

theorem authoring_keeps_stored_shape:
  "(rules_ok (fst w) \<longrightarrow> rules_ok (fst (run user w evs)))
   \<and> rules_ok (fst (run user (empty_store, fresh_page) evs))
   \<and> stored_shape k (wire (decodeRuleValue k t))
   \<and> (\<forall>r \<in> set (rules_table (fst (handleSubmit_rule user i n (s, pg)))).
         r \<in> set (rules_table s)
         \<or> (rule_type r = f_rule_type (formData pg)
            \<and> rule_value r =
                wire (decodeRuleValue (f_rule_type (formData pg)) (f_rule_value (formData pg)))))
   \<and> (user = Some u \<and> editingRule pg = None \<and> i \<notin> set (map rule_id (rules_table s)) \<longrightarrow>
        rules_table (fst (handleSubmit_rule user i n (s, pg))) =
          rules_table s @
            [\<lparr>rule_name = f_rule_name (formData pg),
              field_to_validate = f_field_to_validate (formData pg),
              rule_type = f_rule_type (formData pg),
              rule_value = wire (decodeRuleValue (f_rule_type (formData pg))
                                                 (f_rule_value (formData pg))),
              description = Some (f_description (formData pg)),
              is_active = f_is_active (formData pg),
              created_by = Some u,
              rule_id = i, created_at = n, updated_at = n\<rparr>])
   \<and> (user = Some u \<and> editingRule pg = Some er \<longrightarrow>
        rules_table (fst (handleSubmit_rule user i n (s, pg))) =
          map (\<lambda>r. if rule_id r = rule_id er \<and> created_by r = Some u
                   then r\<lparr>rule_name := f_rule_name (formData pg),
                          field_to_validate := f_field_to_validate (formData pg),
                          rule_type := f_rule_type (formData pg),
                          rule_value := wire (decodeRuleValue (f_rule_type (formData pg))
                                                              (f_rule_value (formData pg))),
                          description := Some (f_description (formData pg)),
                          is_active := f_is_active (formData pg),
                          created_by := Some u\<rparr>
                   else r)
              (rules_table s))"
proof -
  have "rules_ok (fst (empty_store, fresh_page))" by (simp add: rules_ok_def empty_store_def)
  then have 1: "rules_ok (fst (run user (empty_store, fresh_page) evs))" by (rule rules_ok_run)
  have 2: "rules_ok (fst w) \<longrightarrow> rules_ok (fst (run user w evs))"
    using rules_ok_run [of w user evs] by blast
  have 3: "stored_shape k (wire (decodeRuleValue k t))" by (rule stored_shape_decode)
  have 4: "\<forall>r \<in> set (rules_table (fst (handleSubmit_rule user i n (s, pg)))).
         r \<in> set (rules_table s)
         \<or> (rule_type r = f_rule_type (formData pg)
            \<and> rule_value r =
                wire (decodeRuleValue (f_rule_type (formData pg)) (f_rule_value (formData pg))))"
    using handleSubmit_rule_rows [of _ user i n s pg] by blast
  have 5: "user = Some u \<and> editingRule pg = None \<and> i \<notin> set (map rule_id (rules_table s)) \<longrightarrow>
        rules_table (fst (handleSubmit_rule user i n (s, pg))) =
          rules_table s @
            [\<lparr>rule_name = f_rule_name (formData pg),
              field_to_validate = f_field_to_validate (formData pg),
              rule_type = f_rule_type (formData pg),
              rule_value = wire (decodeRuleValue (f_rule_type (formData pg))
                                                 (f_rule_value (formData pg))),
              description = Some (f_description (formData pg)),
              is_active = f_is_active (formData pg),
              created_by = Some u,
              rule_id = i, created_at = n, updated_at = n\<rparr>]"
    by (intro impI, elim conjE) (rule handleSubmit_rule_insert)
  have 6: "user = Some u \<and> editingRule pg = Some er \<longrightarrow>
        rules_table (fst (handleSubmit_rule user i n (s, pg))) =
          map (\<lambda>r. if rule_id r = rule_id er \<and> created_by r = Some u
                   then r\<lparr>rule_name := f_rule_name (formData pg),
                          field_to_validate := f_field_to_validate (formData pg),
                          rule_type := f_rule_type (formData pg),
                          rule_value := wire (decodeRuleValue (f_rule_type (formData pg))
                                                              (f_rule_value (formData pg))),
                          description := Some (f_description (formData pg)),
                          is_active := f_is_active (formData pg),
                          created_by := Some u\<rparr>
                   else r)
              (rules_table s)"
    by (intro impI, elim conjE) (rule handleSubmit_rule_update)
  show ?thesis by (intro conjI) (rule 1 2 3 4 5 6)+
qed

theorem authoring_keeps_stored_shape_witness:
  "rules_ok sample_store
   \<and> rules_ok (fst (run (Some ''u1'') (sample_store, fresh_page)
        [Load, AddRule,
         Fill \<lparr>f_rule_name = ''Price'', f_field_to_validate = ''mrp'',
               f_rule_type = RRange, f_rule_value = ''10-5'', f_description = [],
               f_is_active = True\<rparr>,
         Submit ''rule-2'' 1]))
   \<and> rules_table (fst (run (Some ''u1'') (sample_store, fresh_page)
        [Load, AddRule,
         Fill \<lparr>f_rule_name = ''Price'', f_field_to_validate = ''mrp'',
               f_rule_type = RRange, f_rule_value = ''10-5'', f_description = [],
               f_is_active = True\<rparr>,
         Submit ''rule-2'' 1]))
     = [sample_rule,
        \<lparr>rule_name = ''Price'', field_to_validate = ''mrp'', rule_type = RRange,
         rule_value = Obj [(''min'', Num (js_nat 10)), (''max'', Num (js_nat 5))],
         description = Some [], is_active = True, created_by = Some ''u1'',
         rule_id = ''rule-2'', created_at = 1, updated_at = 1\<rparr>]
   \<and> rules_table (fst (handleSubmit_rule (Some ''u1'') ''rule-3'' 2
        (sample_store\<lparr>rules_table :=
           [sample_rule,
            \<lparr>rule_name = ''Price'', field_to_validate = ''mrp'', rule_type = RRange,
             rule_value = Obj [(''min'', Num (js_nat 10)), (''max'', Num (js_nat 5))],
             description = Some [], is_active = True, created_by = Some ''u1'',
             rule_id = ''rule-2'', created_at = 1, updated_at = 1\<rparr>]\<rparr>,
         \<lparr>rules = [], loading = False, showForm = True,
          editingRule = Some
            \<lparr>rule_name = ''Price'', field_to_validate = ''mrp'', rule_type = RRange,
             rule_value = Obj [(''min'', Num (js_nat 10)), (''max'', Num (js_nat 5))],
             description = Some [], is_active = True, created_by = Some ''u1'',
             rule_id = ''rule-2'', created_at = 1, updated_at = 1\<rparr>,
          formData = \<lparr>f_rule_name = ''Origin'', f_field_to_validate = ''country_of_origin'',
                       f_rule_type = RList, f_rule_value = ''IN, US'', f_description = [],
                       f_is_active = False\<rparr>\<rparr>)))
     = [sample_rule,
        \<lparr>rule_name = ''Origin'', field_to_validate = ''country_of_origin'', rule_type = RList,
         rule_value = Arr [Str ''IN'', Str ''US''],
         description = Some [], is_active = False, created_by = Some ''u1'',
         rule_id = ''rule-2'', created_at = 1, updated_at = 1\<rparr>]"
proof -
  define fd1 where "fd1 = \<lparr>f_rule_name = ''Price'', f_field_to_validate = ''mrp'',
               f_rule_type = RRange, f_rule_value = ''10-5'', f_description = [],
               f_is_active = True\<rparr>"
  define pg1 where "pg1 = \<lparr>rules = [sample_rule], loading = False, showForm = True,
               editingRule = None, formData = fd1\<rparr>"
  define price where "price =
        \<lparr>rule_name = ''Price'', field_to_validate = ''mrp'', rule_type = RRange,
         rule_value = Obj [(''min'', Num (js_nat 10)), (''max'', Num (js_nat 5))],
         description = Some [], is_active = True, created_by = Some ''u1'',
         rule_id = ''rule-2'', created_at = 1, updated_at = 1\<rparr>"
  define fd2 where "fd2 = \<lparr>f_rule_name = ''Origin'', f_field_to_validate = ''country_of_origin'',
                       f_rule_type = RList, f_rule_value = ''IN, US'', f_description = [],
                       f_is_active = False\<rparr>"
  define pg2 where "pg2 = \<lparr>rules = [], loading = False, showForm = True,
          editingRule = Some price, formData = fd2\<rparr>"
  define s2 where "s2 = sample_store\<lparr>rules_table := [sample_rule, price]\<rparr>"
  have h: "rules_ok (fst (sample_store, fresh_page))" by code_simp
  have inv: "rules_ok (fst (run (Some ''u1'') (sample_store, fresh_page)
        [Load, AddRule, Fill fd1, Submit ''rule-2'' 1]))"
    using h authoring_keeps_stored_shape
      [of "(sample_store, fresh_page)" "Some ''u1''"
          "[Load, AddRule, Fill fd1, Submit ''rule-2'' 1]"]
    by blast
  have r: "run (Some ''u1'') (sample_store, fresh_page) [Load, AddRule, Fill fd1, Submit ''rule-2'' 1]
        = handleSubmit_rule (Some ''u1'') ''rule-2'' 1 (sample_store, pg1)"
    by (simp add: run_def step_def can_submit_def fetchRules_def select_rules_def
        sample_store_def fresh_page_def pg1_def fd1_def)
  have d1: "wire (decodeRuleValue RRange ''10-5'')
             = Obj [(''min'', Num (js_nat 10)), (''max'', Num (js_nat 5))]"
    by code_simp
  have d2: "wire (decodeRuleValue RList ''IN, US'') = Arr [Str ''IN'', Str ''US'']"
    by code_simp
  have c1: "Some ''u1'' = Some ''u1'' \<and> editingRule pg1 = None
            \<and> ''rule-2'' \<notin> set (map rule_id (rules_table sample_store))"
    by (simp add: pg1_def sample_store_def sample_rule_def)
  have ins: "rules_table (fst (handleSubmit_rule (Some ''u1'') ''rule-2'' 1 (sample_store, pg1)))
        = [sample_rule, price]"
    using authoring_keeps_stored_shape
      [where user = "Some ''u1''" and i = "''rule-2''" and n = 1 and s = sample_store
         and pg = pg1 and u = "''u1''"] c1
    by (simp add: pg1_def fd1_def d1 price_def sample_store_def)
  have c2: "Some ''u1'' = Some ''u1'' \<and> editingRule pg2 = Some price"
    by (simp add: pg2_def)
  have upd: "rules_table (fst (handleSubmit_rule (Some ''u1'') ''rule-3'' 2 (s2, pg2)))
        = [sample_rule,
           \<lparr>rule_name = ''Origin'', field_to_validate = ''country_of_origin'', rule_type = RList,
            rule_value = Arr [Str ''IN'', Str ''US''],
            description = Some [], is_active = False, created_by = Some ''u1'',
            rule_id = ''rule-2'', created_at = 1, updated_at = 1\<rparr>]"
    using authoring_keeps_stored_shape
      [where user = "Some ''u1''" and i = "''rule-3''" and n = 2 and s = s2
         and pg = pg2 and u = "''u1''" and er = price] c2
    by (simp add: pg2_def fd2_def d2 s2_def price_def sample_rule_def)
  show ?thesis
    using h inv ins upd unfolding r [symmetric] fd1_def pg2_def fd2_def s2_def price_def
    by simp
qed

subsection \<open>Switching a rule on and off\<close>

lemma toggle_store:
  "fst (toggleRuleStatus user r (s, pg)) =
     s\<lparr>rules_table := map (\<lambda>x. if rule_id x = rule_id r \<and> may_write_rule user x
                                 then x\<lparr>is_active := \<not> is_active r\<rparr> else x) (rules_table s)\<rparr>"
  by (simp add: toggleRuleStatus_def update_rule_is_active_def)

lemma toggle_page:
  "snd (toggleRuleStatus user r (s, pg)) =
     fetchRules user (fst (toggleRuleStatus user r (s, pg))) pg"
  by (simp add: toggleRuleStatus_def update_rule_is_active_def)

lemma set_select_rules: "user \<noteq> None \<Longrightarrow> set (select_rules user s) = set (rules_table s)"
  by (cases user) (simp_all add: select_rules_def)

lemma same_id_same_row:
  "distinct (map rule_id rows) \<Longrightarrow> x \<in> set rows \<Longrightarrow> y \<in> set rows \<Longrightarrow> rule_id x = rule_id y
     \<Longrightarrow> x = y"
  by (meson distinct_map inj_on_def)

lemma toggle_twice:
  assumes d: "distinct (map rule_id (rules_table s))" and r: "r \<in> set (rules_table s)"
    and r': "r' \<in> set (rules (snd (toggleRuleStatus user r (s, pg))))"
    and id: "rule_id r' = rule_id r"
  shows "fst (toggleRuleStatus user r' (toggleRuleStatus user r (s, pg))) = s"
proof -
  let ?g = "\<lambda>x. if rule_id x = rule_id r \<and> may_write_rule user x
                 then x\<lparr>is_active := \<not> is_active r\<rparr> else x"
  let ?g' = "\<lambda>x. if rule_id x = rule_id r' \<and> may_write_rule user x
                 then x\<lparr>is_active := \<not> is_active r'\<rparr> else x"
  let ?w1 = "toggleRuleStatus user r (s, pg)"
  have t1: "rules_table (fst ?w1) = map ?g (rules_table s)" by (simp add: toggle_store)
  have pg1: "rules (snd ?w1) = select_rules user (fst ?w1)"
    by (simp add: toggle_page fetchRules_def)
  have u: "user \<noteq> None" using r' pg1 by (cases user) (simp_all add: select_rules_def)
  have "r' \<in> set (map ?g (rules_table s))" using r' pg1 t1 set_select_rules [OF u] by simp
  then obtain x where x: "x \<in> set (rules_table s)" and rx: "r' = ?g x" by auto
  have "rule_id x = rule_id r" using rx id by (auto split: if_splits)
  then have xr: "x = r" using same_id_same_row [OF d x r] by simp
  have gg: "?g' (?g y) = y" if y: "y \<in> set (rules_table s)" for y
  proof (cases "rule_id y = rule_id r")
    case True
    then have yr: "y = r" using same_id_same_row [OF d y r] by simp
    show ?thesis using rx xr yr id by (auto simp: may_write_rule_def)
  next
    case False
    then show ?thesis using id by simp
  qed
  have "fst (toggleRuleStatus user r' ?w1) =
          (fst ?w1)\<lparr>rules_table := map ?g' (rules_table (fst ?w1))\<rparr>"
    using toggle_store [of user r' "fst ?w1" "snd ?w1"] by simp
  also have "\<dots> = s\<lparr>rules_table := map ?g' (map ?g (rules_table s))\<rparr>"
    by (simp add: toggle_store)
  also have "map ?g' (map ?g (rules_table s)) = rules_table s"
    unfolding map_map comp_def using gg by (intro map_idI) blast
  finally show ?thesis by simp
qed

lemma toggle_own_row:
  assumes d: "distinct (map rule_id (rules_table s))" and r: "r \<in> set (rules_table s)"
    and m: "may_write_rule user r"
  shows "rules_table (fst (toggleRuleStatus user r (s, pg))) =
           map (\<lambda>x. if x = r then r\<lparr>is_active := \<not> is_active r\<rparr> else x) (rules_table s)"
proof -
  have "(if rule_id x = rule_id r \<and> may_write_rule user x then x\<lparr>is_active := \<not> is_active r\<rparr> else x)
        = (if x = r then r\<lparr>is_active := \<not> is_active r\<rparr> else x)"
    if "x \<in> set (rules_table s)" for x
    using same_id_same_row [OF d that r] m by auto
  then show ?thesis unfolding toggle_store by (simp cong: map_cong)
qed

lemma toggle_foreign_row:
  assumes d: "distinct (map rule_id (rules_table s))" and r: "r \<in> set (rules_table s)"
    and m: "\<not> may_write_rule user r"
  shows "fst (toggleRuleStatus user r (s, pg)) = s"
proof -
  have "(if rule_id x = rule_id r \<and> may_write_rule user x then x\<lparr>is_active := \<not> is_active r\<rparr> else x)
        = x"
    if "x \<in> set (rules_table s)" for x
    using same_id_same_row [OF d that r] m by auto
  then have "map (\<lambda>x. if rule_id x = rule_id r \<and> may_write_rule user x
                       then x\<lparr>is_active := \<not> is_active r\<rparr> else x) (rules_table s) = rules_table s"
    by (intro map_idI) blast
  then show ?thesis unfolding toggle_store by simp
qed

text \<open>
  Claim C10, as stated, fails. The sample rules of the migration have no creator, and the
  policy "Users can update rules they created" hides them from every update: after a
  signed-in user presses the button of such a rule, the table is as it was and
  \<open>is_active\<close> is still true.
\<close>

theorem toggle_leaves_foreign_rule:
  "is_active sample_rule
   \<and> fst (run (Some ''u1'') (sample_store, fresh_page) [Load, Toggle sample_rule]) = sample_store"
  by (simp add: run_def step_def fetchRules_def select_rules_def sample_store_def toggleRuleStatus_def
      update_rule_is_active_def may_write_rule_def sample_rule_def)

text \<open>
  Claim C10, amended. \<^verbatim>\<open>toggleRuleStatus(rule)\<close> writes nothing but the column
  \<open>is_active\<close>, and only in rows with the id of \<open>rule\<close> that the signed-in user created: no
  row is added or removed, the other columns and the other tables are unchanged. With
  unique ids and \<open>rule\<close> a row of the table: if the user created the rule, its
  \<open>is_active\<close> becomes the negation of what it was; if not, nothing changes; and in both
  cases pressing the button again, on the rule as the refreshed list shows it, brings
  the table back.
\<close>

theorem toggleRuleStatus_effect:
  "rules_table (fst (toggleRuleStatus user r (s, pg))) =
     map (\<lambda>x. if rule_id x = rule_id r \<and> may_write_rule user x
              then x\<lparr>is_active := \<not> is_active r\<rparr> else x) (rules_table s)
   \<and> products_table (fst (toggleRuleStatus user r (s, pg))) = products_table s
   \<and> reports_table (fst (toggleRuleStatus user r (s, pg))) = reports_table s
   \<and> (distinct (map rule_id (rules_table s)) \<and> r \<in> set (rules_table s) \<longrightarrow>
        (may_write_rule user r \<longrightarrow>
           rules_table (fst (toggleRuleStatus user r (s, pg))) =
             map (\<lambda>x. if x = r then r\<lparr>is_active := \<not> is_active r\<rparr> else x) (rules_table s))
      \<and> (\<not> may_write_rule user r \<longrightarrow> fst (toggleRuleStatus user r (s, pg)) = s)
      \<and> (\<forall>r' \<in> set (rules (snd (toggleRuleStatus user r (s, pg)))).
            rule_id r' = rule_id r \<longrightarrow>
            fst (toggleRuleStatus user r' (toggleRuleStatus user r (s, pg))) = s))"
proof -
  have 1: "rules_table (fst (toggleRuleStatus user r (s, pg))) =
     map (\<lambda>x. if rule_id x = rule_id r \<and> may_write_rule user x
              then x\<lparr>is_active := \<not> is_active r\<rparr> else x) (rules_table s)"
    by (simp add: toggle_store)
  have 2: "products_table (fst (toggleRuleStatus user r (s, pg))) = products_table s"
    by (simp add: toggle_store)
  have 3: "reports_table (fst (toggleRuleStatus user r (s, pg))) = reports_table s"
    by (simp add: toggle_store)
  show ?thesis
    using 1 2 3 toggle_own_row [of s r user pg] toggle_foreign_row [of s r user pg]
      toggle_twice [of s r _ user pg]
    by blast
qed

theorem toggleRuleStatus_effect_witness:
  "rules_table (fst (toggleRuleStatus (Some ''u1'')
       (sample_rule\<lparr>rule_id := ''rule-2'', created_by := Some ''u1''\<rparr>)
       (sample_store\<lparr>rules_table :=
          [sample_rule, sample_rule\<lparr>rule_id := ''rule-2'', created_by := Some ''u1''\<rparr>]\<rparr>,
        fresh_page)))
   = [sample_rule,
      sample_rule\<lparr>rule_id := ''rule-2'', created_by := Some ''u1'', is_active := False\<rparr>]
   \<and> fst (toggleRuleStatus (Some ''u1'')
       (sample_rule\<lparr>rule_id := ''rule-2'', created_by := Some ''u1'', is_active := False\<rparr>)
       (toggleRuleStatus (Some ''u1'')
          (sample_rule\<lparr>rule_id := ''rule-2'', created_by := Some ''u1''\<rparr>)
          (sample_store\<lparr>rules_table :=
             [sample_rule, sample_rule\<lparr>rule_id := ''rule-2'', created_by := Some ''u1''\<rparr>]\<rparr>,
           fresh_page)))
     = sample_store\<lparr>rules_table :=
          [sample_rule, sample_rule\<lparr>rule_id := ''rule-2'', created_by := Some ''u1''\<rparr>]\<rparr>"
proof -
  define own where "own = sample_rule\<lparr>rule_id := ''rule-2'', created_by := Some ''u1''\<rparr>"
  define s where "s = sample_store\<lparr>rules_table := [sample_rule, own]\<rparr>"
  define own' where "own' = own\<lparr>is_active := False\<rparr>"
  have d: "distinct (map rule_id (rules_table s)) \<and> own \<in> set (rules_table s)"
    by (simp add: s_def own_def sample_rule_def)
  have m: "may_write_rule (Some ''u1'') own" by (simp add: may_write_rule_def own_def)
  have neq: "sample_rule \<noteq> own" by (simp add: own_def sample_rule_def)
  have act: "is_active own" by (simp add: own_def sample_rule_def)
  note t = toggleRuleStatus_effect [of "Some ''u1''" own s fresh_page]
  have a: "rules_table (fst (toggleRuleStatus (Some ''u1'') own (s, fresh_page))) = [sample_rule, own']"
    using t d m neq act by (simp add: s_def own'_def)
  have "own' \<in> set (rules (snd (toggleRuleStatus (Some ''u1'') own (s, fresh_page))))"
    using a by (simp add: toggle_page fetchRules_def select_rules_def)
  moreover have "rule_id own' = rule_id own" by (simp add: own'_def)
  ultimately have b: "fst (toggleRuleStatus (Some ''u1'') own'
                       (toggleRuleStatus (Some ''u1'') own (s, fresh_page))) = s"
    using t d by blast
  show ?thesis using a b unfolding s_def own'_def own_def by simp
qed

section \<open>Properties of the report page\<close>

text \<open>
  Claim C9. When \<^verbatim>\<open>ReportFormPage.handleSubmit\<close> has inserted the report (a user is
  signed in, the product is loaded and the store accepted the row), the reported
  product is a row of the table and its \<open>compliance_status\<close> is \<open>non-compliant\<close>, whatever
  severity and violation type the form holds; no other column of that row, no other
  product and no rule is changed, and the report is the one new row.
\<close>

theorem report_marks_product_non_compliant:
  assumes "handleSubmit_report user new_id now (s, pg) = (Submitted, s', pg')"
  shows "\<exists>u p. user = Some u \<and> product pg = Some p
     \<and> products_table s' =
         map (\<lambda>q. if product_id q = product_id p then q\<lparr>compliance_status := NonCompliant\<rparr> else q)
             (products_table s)
     \<and> (\<exists>q \<in> set (products_table s'). product_id q = product_id p \<and> compliance_status q = NonCompliant)
     \<and> rules_table s' = rules_table s
     \<and> reports_table s' = reports_table s @
         [\<lparr>report_id = new_id, report_product_id = product_id p, reporter_id = u,
           license_number = Some (f_license_number (report_formData pg)),
           violation_details = f_violation_details (report_formData pg),
           violation_type = Some (f_violation_type (report_formData pg)),
           severity = f_severity (report_formData pg), status = Open,
           report_created_at = now, report_updated_at = now\<rparr>]"
proof -
  obtain u p where u: "user = Some u" and p: "product pg = Some p"
    using assms by (auto simp: handleSubmit_report_def split: option.splits)
  obtain s1 where ins: "insert_report user new_id now (product_id p) u
                   (f_license_number (report_formData pg))
                   (f_violation_details (report_formData pg))
                   (f_violation_type (report_formData pg))
                   (f_severity (report_formData pg)) s = Inr s1"
    using assms u p by (auto simp: handleSubmit_report_def split: sum.splits)
  have fk: "product_id p \<in> set (map product_id (products_table s))"
    and s1: "s1 = s\<lparr>reports_table := reports_table s @
         [\<lparr>report_id = new_id, report_product_id = product_id p, reporter_id = u,
           license_number = Some (f_license_number (report_formData pg)),
           violation_details = f_violation_details (report_formData pg),
           violation_type = Some (f_violation_type (report_formData pg)),
           severity = f_severity (report_formData pg), status = Open,
           report_created_at = now, report_updated_at = now\<rparr>]\<rparr>"
    using ins by (auto simp: insert_report_def split: if_splits)
  have s': "s' = s1\<lparr>products_table :=
            map (\<lambda>q. if product_id q = product_id p then q\<lparr>compliance_status := NonCompliant\<rparr> else q)
                (products_table s1)\<rparr>"
    using assms u p ins by (simp add: handleSubmit_report_def update_product_status_def)
  obtain q0 where q0: "q0 \<in> set (products_table s)" "product_id q0 = product_id p"
    using fk by auto
  have "q0\<lparr>compliance_status := NonCompliant\<rparr> \<in> set (products_table s')"
    using q0 s' s1 by (auto simp: image_iff intro!: bexI [of _ q0])
  then have "\<exists>q \<in> set (products_table s'). product_id q = product_id p \<and> compliance_status q = NonCompliant"
    using q0 by (intro bexI [of _ "q0\<lparr>compliance_status := NonCompliant\<rparr>"]) simp_all
  then show ?thesis using u p s' s1 by simp
qed

theorem report_marks_product_non_compliant_witness:
  "fst (handleSubmit_report (Some ''u1'') ''report-1'' 7
          (sample_store,
           \<lparr>product = Some sample_product, report_loading = False, submitting = False,
            report_formData = \<lparr>f_license_number = ''LM-1'', f_violation_details = ''No MRP'',
                                f_violation_type = ''Missing MRP'', f_severity = Low\<rparr>,
            navigated_to = None\<rparr>)) = Submitted
   \<and> products_table (fst (snd (handleSubmit_report (Some ''u1'') ''report-1'' 7
          (sample_store,
           \<lparr>product = Some sample_product, report_loading = False, submitting = False,
            report_formData = \<lparr>f_license_number = ''LM-1'', f_violation_details = ''No MRP'',
                                f_violation_type = ''Missing MRP'', f_severity = Low\<rparr>,
            navigated_to = None\<rparr>))))
     = [sample_product\<lparr>compliance_status := NonCompliant\<rparr>]"
proof -
  define pg where "pg = \<lparr>product = Some sample_product, report_loading = False, submitting = False,
            report_formData = \<lparr>f_license_number = ''LM-1'', f_violation_details = ''No MRP'',
                                f_violation_type = ''Missing MRP'', f_severity = Low\<rparr>,
            navigated_to = None\<rparr>"
  define res where "res = handleSubmit_report (Some ''u1'') ''report-1'' 7 (sample_store, pg)"
  have o: "fst res = Submitted"
    unfolding res_def pg_def
    by (simp add: handleSubmit_report_def insert_report_def sample_store_def)
  then have "handleSubmit_report (Some ''u1'') ''report-1'' 7 (sample_store, pg)
               = (Submitted, fst (snd res), snd (snd res))"
    unfolding res_def by (metis prod.collapse)
  from report_marks_product_non_compliant [OF this]
  have "products_table (fst (snd res)) =
          map (\<lambda>q. if product_id q = product_id sample_product
                    then q\<lparr>compliance_status := NonCompliant\<rparr> else q)
              (products_table sample_store)"
    by (simp add: pg_def)
  then have "products_table (fst (snd res)) = [sample_product\<lparr>compliance_status := NonCompliant\<rparr>]"
    by (simp add: sample_store_def)
  then show ?thesis using o unfolding res_def pg_def by simp
qed


section \<open>Properties of rule evaluation\<close>

lemma evaluate_corrupt_iff:
  "evaluate eng r p = Inl CorruptRule
     \<longleftrightarrow> \<not> spec_shape (regex_compiles eng) (rule_type r) (rule_value r)"
  by (simp add: evaluate_def)

lemma evaluateAll_from_eq:
  "evaluateAll_from eng p rs acc =
     \<lparr>violations = violations acc @
        concat (map (\<lambda>r. case evaluate eng r p of Inr (Some v) \<Rightarrow> [v] | _ \<Rightarrow> [])
                    (filter is_active rs)),
      skipped = skipped acc @
        map rule_id (filter (\<lambda>r. is_active r \<and> evaluate eng r p = Inl CorruptRule) rs)\<rparr>"
proof (induction rs arbitrary: acc)
  case Nil
  show ?case by simp
next
  case (Cons r rs)
  show ?case
  proof (cases "is_active r")
    case False
    then show ?thesis using Cons by simp
  next
    case True
    show ?thesis
    proof (cases "evaluate eng r p")
      case (Inl e)
      then show ?thesis using True Cons by (cases e) simp
    next
      case (Inr res)
      then show ?thesis using True Cons by (cases res) simp_all
    qed
  qed
qed

text \<open>
  Claim C6. \<^verbatim>\<open>evaluateAll\<close> returns a result for every rule list: the violations are
  those of the active rules that evaluate without error, in list order, and \<open>skipped\<close>
  holds the ids of the active rules whose value does not have the shape of their kind.
  So with one such corrupt rule anywhere among rules that are not corrupt, the violations
  are exactly those of the other rules and \<open>skipped\<close> is the id of the corrupt rule.
\<close>

theorem evaluateAll_skips_corrupt_rule:
  "violations (evaluateAll eng rs p) =
     concat (map (\<lambda>r. case evaluate eng r p of Inr (Some v) \<Rightarrow> [v] | _ \<Rightarrow> [])
                 (filter is_active rs))
   \<and> skipped (evaluateAll eng rs p) =
       map rule_id (filter (\<lambda>r. is_active r
          \<and> \<not> spec_shape (regex_compiles eng) (rule_type r) (rule_value r)) rs)
   \<and> (is_active c \<and> \<not> spec_shape (regex_compiles eng) (rule_type c) (rule_value c)
       \<and> (\<forall>r \<in> set (xs @ ys). spec_shape (regex_compiles eng) (rule_type r) (rule_value r))
       \<longrightarrow> violations (evaluateAll eng (xs @ c # ys) p) = violations (evaluateAll eng (xs @ ys) p)
           \<and> skipped (evaluateAll eng (xs @ c # ys) p) = [rule_id c])"
proof -
  have e: "\<And>rs. evaluateAll eng rs p =
     \<lparr>violations = concat (map (\<lambda>r. case evaluate eng r p of Inr (Some v) \<Rightarrow> [v] | _ \<Rightarrow> [])
                                (filter is_active rs)),
      skipped = map rule_id (filter (\<lambda>r. is_active r
          \<and> \<not> spec_shape (regex_compiles eng) (rule_type r) (rule_value r)) rs)\<rparr>"
    by (simp add: evaluateAll_def evaluateAll_from_eq evaluate_corrupt_iff)
  have c: "\<not> spec_shape (regex_compiles eng) (rule_type c) (rule_value c) \<Longrightarrow>
           (case evaluate eng c p of Inr (Some v) \<Rightarrow> [v] | _ \<Rightarrow> []) = []"
    by (simp add: evaluate_def)
  show ?thesis
    by (auto simp: e c filter_empty_conv)
qed

theorem evaluateAll_skips_corrupt_rule_witness:
  "evaluateAll
     \<lparr>regex_compiles = (\<lambda>pat. True), regex_matches = (\<lambda>pat text. True),
      custom_evaluator = (\<lambda>r. None), violation_text = (\<lambda>r. (''violated'', Medium))\<rparr>
     [sample_rule,
      sample_rule\<lparr>rule_id := ''rule-2'', rule_type := RRange, rule_value := Str ''abc''\<rparr>,
      sample_rule\<lparr>rule_id := ''rule-3'', field_to_validate := ''date_of_manufacture''\<rparr>]
     (sample_product\<lparr>mrp := None\<rparr>)
   = \<lparr>violations =
        [\<lparr>v_field = ''mrp'', v_rule_name = ''MRP Presence Check'',
          v_message = ''violated'', v_severity = Medium\<rparr>,
         \<lparr>v_field = ''date_of_manufacture'', v_rule_name = ''MRP Presence Check'',
          v_message = ''violated'', v_severity = Medium\<rparr>],
      skipped = [''rule-2'']\<rparr>"
proof -
  define eng where "eng = \<lparr>regex_compiles = (\<lambda>pat::string. True),
      regex_matches = (\<lambda>(pat::string) (text::string). True),
      custom_evaluator = (\<lambda>r::rule. (None :: (product \<Rightarrow> bool) option)),
      violation_text = (\<lambda>r::rule. (''violated'', Medium))\<rparr>"
  define c where "c = sample_rule\<lparr>rule_id := ''rule-2'', rule_type := RRange, rule_value := Str ''abc''\<rparr>"
  define b where "b = sample_rule\<lparr>rule_id := ''rule-3'', field_to_validate := ''date_of_manufacture''\<rparr>"
  define p where "p = sample_product\<lparr>mrp := None\<rparr>"
  have h: "is_active c \<and> \<not> spec_shape (regex_compiles eng) (rule_type c) (rule_value c)
       \<and> (\<forall>r \<in> set ([sample_rule] @ [b]). spec_shape (regex_compiles eng) (rule_type r) (rule_value r))"
    by (simp add: c_def b_def sample_rule_def spec_shape_def)
  have v: "violations (evaluateAll eng ([sample_rule] @ [b]) p) =
        [\<lparr>v_field = ''mrp'', v_rule_name = ''MRP Presence Check'',
          v_message = ''violated'', v_severity = Medium\<rparr>,
         \<lparr>v_field = ''date_of_manufacture'', v_rule_name = ''MRP Presence Check'',
          v_message = ''violated'', v_severity = Medium\<rparr>]"
    by (simp add: evaluateAll_def evaluate_def violated_def product_field_def as_number_def
        field_text_def spec_shape_def eng_def b_def p_def sample_rule_def sample_product_def)
  have "violations (evaluateAll eng ([sample_rule] @ c # [b]) p)
          = violations (evaluateAll eng ([sample_rule] @ [b]) p)
        \<and> skipped (evaluateAll eng ([sample_rule] @ c # [b]) p) = [rule_id c]"
    using evaluateAll_skips_corrupt_rule [of eng _ p c "[sample_rule]" "[b]"] h by blast
  then have "evaluateAll eng [sample_rule, c, b] p =
      \<lparr>violations =
        [\<lparr>v_field = ''mrp'', v_rule_name = ''MRP Presence Check'',
          v_message = ''violated'', v_severity = Medium\<rparr>,
         \<lparr>v_field = ''date_of_manufacture'', v_rule_name = ''MRP Presence Check'',
          v_message = ''violated'', v_severity = Medium\<rparr>],
       skipped = [''rule-2'']\<rparr>"
    using v by (simp add: c_def sample_rule_def eval_result.equality)
  then show ?thesis unfolding eng_def c_def b_def p_def .
qed

end
